theory Spec2Isabelle
  imports Complex_Main "HOL-Library.Sublist"
begin

section \<open>JavaScript values\<close>

text \<open>
  The data that the bridge stub and the wrapper handle are plain JavaScript values. An
  object is an association list in the engine's own property order, with one entry per
  key; a key that is present with the value \<open>undefined\<close> is an entry whose value is
  \<open>JUndefined\<close>. The numbers in these values are integers (fractions, \<open>NaN\<close> and the
  infinities come in with the loader's \<open>retryAttempts\<close> only), and keys and strings are
  ASCII.
\<close>

datatype jvalue =
    JUndefined
  | JNull
  | JBool bool
  | JNum int
  | JStr string
  | JArr "jvalue list"
  | JObj "(string \<times> jvalue) list"

type_synonym jobject = "(string \<times> jvalue) list"

text \<open>\<open>Object.keys(obj)\<close>: the own keys, in property order.\<close>

definition obj_keys :: "jobject \<Rightarrow> string list" where
  "obj_keys obj = map fst obj"

text \<open>\<open>obj[key]\<close>: a key that is not there reads as \<open>undefined\<close>.\<close>

definition obj_get :: "jobject \<Rightarrow> string \<Rightarrow> jvalue" where
  "obj_get obj key = (case map_of obj key of None \<Rightarrow> JUndefined | Some v \<Rightarrow> v)"

text \<open>\<open>delete obj[key]\<close>.\<close>

definition obj_delete :: "jobject \<Rightarrow> string \<Rightarrow> jobject" where
  "obj_delete obj key = filter (\<lambda>kv. fst kv \<noteq> key) obj"

text \<open>An object has every key once.\<close>

definition wf_object :: "jobject \<Rightarrow> bool" where
  "wf_object obj = distinct (map fst obj)"

section \<open>The bridge stub: compaction without acceleration\<close>

text \<open>
  \<open>optimizeEvents\<close> maps over the events. For each one it takes a shallow copy
  (\<open>{ ...event }\<close>), takes the copy's keys once, and for each key deletes the entry when
  its value is \<open>null\<close> or \<open>undefined\<close>.
\<close>

definition drop_if_empty :: "string \<Rightarrow> jobject \<Rightarrow> jobject" where
  "drop_if_empty key optimized =
     (if obj_get optimized key = JNull \<or> obj_get optimized key = JUndefined
      then obj_delete optimized key else optimized)"

definition optimizeEvent :: "jobject \<Rightarrow> jobject" where
  "optimizeEvent event =
     (let optimized = event in fold drop_if_empty (obj_keys optimized) optimized)"

definition optimizeEvents :: "jobject list \<Rightarrow> jobject list" where
  "optimizeEvents events = map optimizeEvent events"

text \<open>
  \<open>processBatch\<close> serialises the optimised events and marks the payload as not
  compressed. \<open>JSON.stringify\<close> belongs to the platform; it is a parameter.
\<close>

record 'd batch_payload =
  payload_data :: 'd
  compressed :: bool

definition processBatch :: "(jvalue \<Rightarrow> 'd) \<Rightarrow> jobject list \<Rightarrow> 'd batch_payload" where
  "processBatch JSON_stringify events =
     (let processed = optimizeEvents events
      in \<lparr>payload_data = JSON_stringify (JArr (map JObj processed)), compressed = False\<rparr>)"

text \<open>A field is kept when its value is neither \<open>null\<close> nor \<open>undefined\<close>.\<close>

definition present :: "string \<times> jvalue \<Rightarrow> bool" where
  "present kv = (snd kv \<noteq> JNull \<and> snd kv \<noteq> JUndefined)"

section \<open>The Vue composable\<close>

text \<open>
  A \<open>SajkoComposable\<close> is a bundle of five functions. The ones the plugin provides act
  on the application (a state \<open>'s\<close>) and may throw; \<open>inject('sajko')\<close> gives the bundle
  or \<open>undefined\<close>.
\<close>

datatype js_error = TypeError | SyntaxError | Error string

record ('p, 'm, 's) SajkoComposable =
  track :: "string \<Rightarrow> 'p option \<Rightarrow> 's \<Rightarrow> js_error + 's"
  identify :: "string \<Rightarrow> 'p option \<Rightarrow> 's \<Rightarrow> js_error + 's"
  getMetrics :: "'s \<Rightarrow> js_error + 'm option"
  getSessionId :: "'s \<Rightarrow> js_error + string option"
  isRecording :: "'s \<Rightarrow> js_error + bool"

definition useSajko ::
  "('p, 'm, 's) SajkoComposable option \<Rightarrow> ('p, 'm, 's) SajkoComposable" where
  "useSajko injected =
     (case injected of
        None \<Rightarrow>
          \<lparr>track = (\<lambda>event properties s. Inr s),
           identify = (\<lambda>userId traits s. Inr s),
           getMetrics = (\<lambda>s. Inr None),
           getSessionId = (\<lambda>s. Inr None),
           isRecording = (\<lambda>s. Inr False)\<rparr>
      | Some sajko \<Rightarrow> sajko)"

section \<open>Strings\<close>

text \<open>\<open>s.includes(searchString)\<close>: the search string occurs in \<open>s\<close> as a contiguous run.\<close>

fun str_includes :: "string \<Rightarrow> string \<Rightarrow> bool" where
  "str_includes [] searchString = (searchString = [])"
| "str_includes (c # cs) searchString =
     (prefix searchString (c # cs) \<or> str_includes cs searchString)"

text \<open>\<open>s.toLowerCase()\<close> on ASCII: the letters A to Z move to a to z.\<close>

definition toLowerCase :: "string \<Rightarrow> string" where
  "toLowerCase s =
     map (\<lambda>c. let n = of_char c :: nat in if 65 \<le> n \<and> n \<le> 90 then char_of (n + 32) else c) s"

text \<open>The operator \<open>a || b\<close> on optional strings: \<open>undefined\<close> and \<open>''\<close> are falsy.\<close>

definition truthy_str :: "string option \<Rightarrow> bool" where
  "truthy_str s = (case s of None \<Rightarrow> False | Some x \<Rightarrow> x \<noteq> [])"

definition or_str :: "string option \<Rightarrow> string \<Rightarrow> string" where
  "or_str s d = (case s of None \<Rightarrow> d | Some x \<Rightarrow> if x = [] then d else x)"

section \<open>The bridge stub: masking without acceleration\<close>

text \<open>
  \<open>JSON.parse(JSON.stringify(data))\<close>: inside an object a field whose value is
  \<open>undefined\<close> is left out, inside an array \<open>undefined\<close> becomes \<open>null\<close>; at the top,
  \<open>JSON.stringify(undefined)\<close> is \<open>undefined\<close> and \<open>JSON.parse\<close> throws a SyntaxError on
  it.
\<close>

fun json_copy :: "jvalue \<Rightarrow> jvalue"
  and json_copy_fields :: "jobject \<Rightarrow> jobject"
  and json_copy_items :: "jvalue list \<Rightarrow> jvalue list" where
  "json_copy (JObj fs) = JObj (json_copy_fields fs)"
| "json_copy (JArr xs) = JArr (json_copy_items xs)"
| "json_copy v = v"
| "json_copy_fields [] = []"
| "json_copy_fields ((k, v) # fs) =
     (if v = JUndefined then json_copy_fields fs else (k, json_copy v) # json_copy_fields fs)"
| "json_copy_items [] = []"
| "json_copy_items (x # xs) =
     (if x = JUndefined then JNull else json_copy x) # json_copy_items xs"

definition JSON_roundtrip :: "jvalue \<Rightarrow> js_error + jvalue" where
  "JSON_roundtrip data = (if data = JUndefined then Inl SyntaxError else Inr (json_copy data))"

definition sensitiveFields :: "string list" where
  "sensitiveFields = [''password'', ''email'', ''ssn'', ''credit_card'', ''phone'']"

text \<open>\<open>sensitiveFields.some(field => key.toLowerCase().includes(field))\<close>\<close>

definition is_sensitive :: "string \<Rightarrow> bool" where
  "is_sensitive key = list_ex (\<lambda>field. str_includes (toLowerCase key) field) sensitiveFields"

definition MASKED :: jvalue where
  "MASKED = JStr ''[MASKED]''"

text \<open>\<open>typeof v === 'object' && v !== null\<close>\<close>

fun is_object :: "jvalue \<Rightarrow> bool" where
  "is_object (JObj fs) = True"
| "is_object (JArr xs) = True"
| "is_object v = False"

text \<open>
  \<open>maskObject\<close> walks the own keys of \<open>obj\<close> with \<open>for (const key in obj)\<close> and, behind
  \<open>obj.hasOwnProperty(key)\<close>, overwrites the value under a sensitive key and descends
  into the object or array under any other key. The walk is over the parsed copy, in
  place; here it returns the walked value. A parsed object that has an own key named
  \<open>hasOwnProperty\<close> holds data under it, not a function, so the guard of the first
  iteration throws a TypeError. An array has its indices as keys (none is sensitive) and
  the guard of the prototype. On a value that is no object or array the loop has nothing
  to assign.
\<close>

fun maskObject :: "jvalue \<Rightarrow> js_error + jvalue"
  and maskFields :: "jobject \<Rightarrow> js_error + jobject"
  and maskItems :: "jvalue list \<Rightarrow> js_error + jvalue list" where
  "maskObject (JObj fs) =
     (if ''hasOwnProperty'' \<in> set (obj_keys fs) then Inl TypeError
      else (case maskFields fs of Inl e \<Rightarrow> Inl e | Inr fs' \<Rightarrow> Inr (JObj fs')))"
| "maskObject (JArr xs) =
     (case maskItems xs of Inl e \<Rightarrow> Inl e | Inr xs' \<Rightarrow> Inr (JArr xs'))"
| "maskObject v = Inr v"
| "maskFields [] = Inr []"
| "maskFields ((key, v) # fs) =
     (if is_sensitive key then
        (case maskFields fs of Inl e \<Rightarrow> Inl e | Inr fs' \<Rightarrow> Inr ((key, MASKED) # fs'))
      else if is_object v then
        (case maskObject v of
           Inl e \<Rightarrow> Inl e
         | Inr v' \<Rightarrow>
             (case maskFields fs of Inl e \<Rightarrow> Inl e | Inr fs' \<Rightarrow> Inr ((key, v') # fs')))
      else
        (case maskFields fs of Inl e \<Rightarrow> Inl e | Inr fs' \<Rightarrow> Inr ((key, v) # fs')))"
| "maskItems [] = Inr []"
| "maskItems (x # xs) =
     (if is_object x then
        (case maskObject x of
           Inl e \<Rightarrow> Inl e
         | Inr x' \<Rightarrow> (case maskItems xs of Inl e \<Rightarrow> Inl e | Inr xs' \<Rightarrow> Inr (x' # xs')))
      else (case maskItems xs of Inl e \<Rightarrow> Inl e | Inr xs' \<Rightarrow> Inr (x # xs')))"

text \<open>
  Objects are passed and returned by reference. The store holds the values that exist,
  by address; a record and what is nested in it are one entry (a JSON value is a tree,
  nothing in it is shared). \<open>JSON.parse\<close> builds its result as a new entry, and
  \<open>maskObject(masked)\<close> overwrites in the entry it is given. \<open>maskPrivateData\<close> takes
  the address of the caller's record and returns the address of the value it built,
  with the store as it is then.
\<close>

type_synonym store = "jvalue list"

definition maskPrivateData :: "store \<Rightarrow> nat \<Rightarrow> js_error + nat \<times> store" where
  "maskPrivateData s data =
     (case JSON_roundtrip (s ! data) of
        Inl e \<Rightarrow> Inl e
      | Inr parsed \<Rightarrow>
          (let masked = length s;
               s1 = s @ [parsed]
           in case maskObject (s1 ! masked) of
                Inl e \<Rightarrow> Inl e
              | Inr walked \<Rightarrow> Inr (masked, s1[masked := walked])))"

text \<open>
  Positions in a value: a path of object keys and array indices, and the value it leads
  to.
\<close>

datatype path_step = Key string | Idx nat

fun lookup :: "jvalue \<Rightarrow> path_step list \<Rightarrow> jvalue option" where
  "lookup v [] = Some v"
| "lookup (JObj fs) (Key k # p) =
     (case map_of fs k of None \<Rightarrow> None | Some v \<Rightarrow> lookup v p)"
| "lookup (JArr xs) (Idx i # p) = (if i < length xs then lookup (xs ! i) p else None)"
| "lookup v (s # p) = None"

text \<open>The keys along a path, and whether the path passes no sensitive key.\<close>

fun path_keys :: "path_step list \<Rightarrow> string list" where
  "path_keys [] = []"
| "path_keys (Key k # p) = k # path_keys p"
| "path_keys (Idx i # p) = path_keys p"

definition clean_path :: "path_step list \<Rightarrow> bool" where
  "clean_path p = list_all (\<lambda>k. \<not> is_sensitive k) (path_keys p)"

text \<open>All keys of all objects in a value, at any depth.\<close>

fun deep_keys :: "jvalue \<Rightarrow> string list"
  and deep_keys_fields :: "jobject \<Rightarrow> string list"
  and deep_keys_items :: "jvalue list \<Rightarrow> string list" where
  "deep_keys (JObj fs) = deep_keys_fields fs"
| "deep_keys (JArr xs) = deep_keys_items xs"
| "deep_keys v = []"
| "deep_keys_fields [] = []"
| "deep_keys_fields ((k, v) # fs) = k # deep_keys v @ deep_keys_fields fs"
| "deep_keys_items [] = []"
| "deep_keys_items (x # xs) = deep_keys x @ deep_keys_items xs"

text \<open>All fields of all objects in a value, at any depth.\<close>

fun deep_fields :: "jvalue \<Rightarrow> (string \<times> jvalue) list"
  and deep_fields_fields :: "jobject \<Rightarrow> (string \<times> jvalue) list"
  and deep_fields_items :: "jvalue list \<Rightarrow> (string \<times> jvalue) list" where
  "deep_fields (JObj fs) = deep_fields_fields fs"
| "deep_fields (JArr xs) = deep_fields_items xs"
| "deep_fields v = []"
| "deep_fields_fields [] = []"
| "deep_fields_fields ((k, v) # fs) = (k, v) # deep_fields v @ deep_fields_fields fs"
| "deep_fields_items [] = []"
| "deep_fields_items (x # xs) = deep_fields x @ deep_fields_items xs"

text \<open>JSON data: no \<open>undefined\<close> anywhere.\<close>

fun json_data :: "jvalue \<Rightarrow> bool"
  and json_data_fields :: "jobject \<Rightarrow> bool"
  and json_data_items :: "jvalue list \<Rightarrow> bool" where
  "json_data (JObj fs) = json_data_fields fs"
| "json_data (JArr xs) = json_data_items xs"
| "json_data JUndefined = False"
| "json_data v = True"
| "json_data_fields [] = True"
| "json_data_fields ((k, v) # fs) = (json_data v \<and> json_data_fields fs)"
| "json_data_items [] = True"
| "json_data_items (x # xs) = (json_data x \<and> json_data_items xs)"

section \<open>The Next.js server component\<close>

text \<open>
  \<open>SajkoConfig\<close>: a field that is absent is \<open>None\<close>. The type declares \<open>websiteId\<close>
  as required, but a JavaScript caller can leave it out, and \<open>init\<close> checks for that.
  The groups \<open>performance\<close>, \<open>privacy\<close> and \<open>shopify\<close> are carried as values.
\<close>

record SajkoConfig =
  websiteId :: "string option"
  apiEndpoint :: "string option"
  hasUserConsent :: "bool option"
  debug :: "bool option"
  wasmUrl :: "string option"
  performance :: "jvalue option"
  privacy :: "jvalue option"
  shopify :: "jvalue option"

text \<open>One field of \<open>{ ...a, ...b }\<close>: the value of \<open>b\<close> when \<open>b\<close> has the key.\<close>

definition override :: "'a option \<Rightarrow> 'a option \<Rightarrow> 'a option" where
  "override a b = (case b of None \<Rightarrow> a | Some v \<Rightarrow> Some v)"

text \<open>\<open>{ ...a, ...b }\<close> on configurations (\<open>b\<close> is a \<open>Partial<SajkoConfig>\<close>).\<close>

definition spread :: "SajkoConfig \<Rightarrow> SajkoConfig \<Rightarrow> SajkoConfig" where
  "spread a b =
     \<lparr>websiteId = override (websiteId a) (websiteId b),
      apiEndpoint = override (apiEndpoint a) (apiEndpoint b),
      hasUserConsent = override (hasUserConsent a) (hasUserConsent b),
      debug = override (debug a) (debug b),
      wasmUrl = override (wasmUrl a) (wasmUrl b),
      performance = override (performance a) (performance b),
      privacy = override (privacy a) (privacy b),
      shopify = override (shopify a) (shopify b)\<rparr>"

definition empty_config :: SajkoConfig where
  "empty_config =
     \<lparr>websiteId = None, apiEndpoint = None, hasUserConsent = None, debug = None,
      wasmUrl = None, performance = None, privacy = None, shopify = None\<rparr>"

record SajkoTrackerProps =
  props_websiteId :: string
  props_apiEndpoint :: "string option"
  props_debug :: "bool option"
  props_config :: "SajkoConfig option"

text \<open>What the component reads from the request and from the process environment.\<close>

record request_headers =
  user_agent :: "string option"
  cookie :: "string option"

record process_env =
  NEXT_PUBLIC_SAJKO_API :: "string option"
  NODE_ENV :: "string option"

text \<open>The \<open>hasUserConsent\<close> that the \<open>config\<close> prop brings, if any.\<close>

definition custom_consent :: "SajkoTrackerProps \<Rightarrow> bool option" where
  "custom_consent props = (case props_config props of None \<Rightarrow> None | Some c \<Rightarrow> hasUserConsent c)"

datatype strategy = beforeInteractive | afterInteractive | lazyOnload

text \<open>The element \<open><SajkoScript config={...} strategy={...} />\<close>.\<close>

record SajkoScriptElement =
  script_config :: SajkoConfig
  script_strategy :: strategy

text \<open>\<open>cookieHeader?.includes('consent=true') ?? true\<close>\<close>

definition hasConsent :: "string option \<Rightarrow> bool" where
  "hasConsent cookieHeader =
     (case map_option (\<lambda>c. str_includes c ''consent=true'') cookieHeader of
        None \<Rightarrow> True
      | Some b \<Rightarrow> b)"

definition SajkoTracker ::
  "SajkoTrackerProps \<Rightarrow> request_headers \<Rightarrow> process_env \<Rightarrow> SajkoScriptElement" where
  "SajkoTracker props headersList env =
     (let cookieHeader = cookie headersList;
          sajkoConfig =
            spread
              \<lparr>websiteId = Some (props_websiteId props),
               apiEndpoint =
                 Some (or_str (props_apiEndpoint props)
                         (or_str (NEXT_PUBLIC_SAJKO_API env) ''https://app.sajko.sk'')),
               hasUserConsent = Some (hasConsent cookieHeader),
               debug =
                 Some (case props_debug props of
                         None \<Rightarrow> NODE_ENV env = Some ''development''
                       | Some d \<Rightarrow> d),
               wasmUrl = None, performance = None, privacy = None, shopify = None\<rparr>
              (case props_config props of None \<Rightarrow> empty_config | Some c \<Rightarrow> c)
      in \<lparr>script_config = sajkoConfig, script_strategy = afterInteractive\<rparr>)"

section \<open>The loader\<close>

text \<open>
  \<open>retryAttempts\<close> is compared with the attempt count, and a JavaScript number can be
  a fraction, an infinity or \<open>NaN\<close>: the finite numbers are the rationals here.
\<close>

datatype js_number = Num rat | PosInfinity | NegInfinity | NaN

text \<open>
  \<open>LoaderOptions\<close>: every field is optional; an absent field is \<open>None\<close>. The two
  durations only go to \<open>setTimeout\<close> and into a message; they are integers.
\<close>

record LoaderOptions =
  cdnUrl :: "string option"
  version :: "string option"
  timeout :: "int option"
  retryAttempts :: "js_number option"
  retryDelay :: "int option"

definition no_options :: LoaderOptions where
  "no_options =
     \<lparr>cdnUrl = None, version = None, timeout = None, retryAttempts = None, retryDelay = None\<rparr>"

text \<open>\<open>a || d\<close> on an optional number: \<open>undefined\<close> and \<open>0\<close> are falsy.\<close>

definition or_num :: "int option \<Rightarrow> int \<Rightarrow> int" where
  "or_num a d = (case a of None \<Rightarrow> d | Some n \<Rightarrow> if n = 0 then d else n)"

text \<open>The same on a JavaScript number: \<open>NaN\<close> is falsy too.\<close>

definition or_number :: "js_number option \<Rightarrow> js_number \<Rightarrow> js_number" where
  "or_number a d = (case a of None \<Rightarrow> d | Some n \<Rightarrow> if n = Num 0 \<or> n = NaN then d else n)"

text \<open>
  \<open>attempt < n\<close> for an attempt count and an optional number: the comparison with
  \<open>undefined\<close> and with \<open>NaN\<close> is false.
\<close>

fun less_number :: "nat \<Rightarrow> js_number option \<Rightarrow> bool" where
  "less_number k None = False"
| "less_number k (Some (Num q)) = (of_nat k < q)"
| "less_number k (Some PosInfinity) = True"
| "less_number k (Some NegInfinity) = False"
| "less_number k (Some NaN) = False"

text \<open>The errors that the wrapper and the loader raise, by their messages.\<close>

datatype load_error =
    WebsiteIdRequired
      \<comment> \<open>\<open>SAJKO: websiteId is required in configuration\<close>\<close>
  | ScriptLoadTimeout "int option"
      \<comment> \<open>\<open>Script load timeout after ${timeout}ms\<close>\<close>
  | ScriptLoadError
      \<comment> \<open>the error event of the script element\<close>
  | LoadFailed nat load_error
      \<comment> \<open>\<open>Failed to load SAJKO script after ${attempt} attempts: ${error}\<close>\<close>
  | ReplayNotAvailable
      \<comment> \<open>\<open>SajkoReplay not available after script load\<close>\<close>
  | SelectorSyntaxError
      \<comment> \<open>the \<open>SyntaxError\<close> of \<open>document.querySelector\<close> for a selector it does not accept\<close>

text \<open>
  The promise held in \<open>scriptPromise\<close> is the one that \<open>loadWithRetry()\<close> returned. While
  it is pending, \<open>loadWithRetry(attempt)\<close> is suspended at one of its two \<open>await\<close>s:
  on the promise of \<open>loadScript()\<close>, which is either still open (a script element was
  appended and has not fired yet), or was resolved on the spot (an element was found in
  the document, the continuation is queued), or was rejected on the spot (the lookup
  threw inside the promise's executor, the continuation is queued); or on
  \<open>delay(retryDelay)\<close>.
\<close>

datatype load_phase =
    AwaitScript nat
  | AwaitResolved nat
  | AwaitRejected nat load_error
  | AwaitDelay nat

datatype promise = Pending load_phase | Fulfilled | Rejected load_error

record SajkoLoader =
  scriptPromise :: "promise option"
  config :: SajkoConfig
  options :: LoaderOptions
  isLoaded :: bool

text \<open>
  The engine handle \<open>window.SajkoReplay\<close> is made by the replay script, which is not part
  of these sources: the handle is data here (its properties, whether it has the two
  optional methods, what \<open>getMetrics()\<close> gives), and a call of one of its methods is
  recorded as an effect.
\<close>

record SajkoMetrics =
  metrics_sessionId :: string
  metrics_isRecording :: bool
  queueSize :: int
  hasWasm :: bool
  wasmMetrics :: "jvalue option"

record SajkoReplay =
  replay_isRecording :: bool
  replay_sessionId :: string
  replay_visitorId :: "string option"
  replay_version :: string
  replay_useWasm :: bool
  replay_has_trackEvent :: bool
  replay_has_identify :: bool
  replay_metrics :: SajkoMetrics

text \<open>The script element that \<open>loadScript\<close> builds.\<close>

record ScriptTag =
  src :: string
  async :: bool
  dataset_websiteId :: string
  dataset_apiEndpoint :: "string option"
  dataset_userConsent :: "string option"
  dataset_debug :: "string option"

text \<open>
  What reaches the platform and the engine: appending a script element to the document
  (the browser then fetches its \<open>src\<close>), timers, and the calls of engine methods.
  \<open>LoadScript n\<close> marks the call of \<open>loadScript()\<close> by \<open>loadWithRetry(n)\<close>.
\<close>

datatype effect =
    LoadScript nat
  | AppendScript ScriptTag
  | ScriptTimer "int option"
  | Delay "int option"
  | EngineStop
  | EngineFlush
  | EngineTrackEvent string "jvalue option"
  | EngineIdentify string "jvalue option"

text \<open>
  A call of \<open>init\<close> that is suspended: in \<open>await loaderInstance.load()\<close>, where \<open>load()\<close>
  of the loader at that address awaits \<open>scriptPromise\<close> and then polls for
  \<open>window.SajkoReplay\<close>, or with the handle that \<open>load()\<close> returned at once.
\<close>

datatype init_task = AwaitLoad nat | HaveReplay SajkoReplay

text \<open>
  \<open>document.querySelector\<close> belongs to the platform. The loader calls it with
  \<open>`script[src="${scriptUrl}"]`\<close>, the URL put between the quotes as it is, so what is
  selected is up to the selector grammar: the page carries the lookup as a function
  from the URL that was put in and the script elements of the document to the position
  of the element that is selected, to no element, or to the \<open>SyntaxError\<close> for a
  selector that is not accepted.
\<close>

datatype query_result = Selected nat | NoMatch | InvalidSelector

text \<open>
  The page: the globals on \<open>window\<close>, the script elements of the document in document
  order, the platform's lookup, the loader objects by address (\<open>SajkoLoader.instance\<close>
  and the module variable \<open>loaderInstance\<close> hold addresses, and always of loaders that
  exist), the two module variables of the wrapper, the suspended calls of \<open>init\<close>, and
  the effects so far. \<open>console\<close> output is left out.
\<close>

record world =
  window_SajkoReplay :: "SajkoReplay option"
  window_sajkoConfig :: "SajkoConfig option"
  window_sajkoRecorderV4Instance :: "jvalue option"
  document_scripts :: "ScriptTag list"
  document_querySelector :: "string \<Rightarrow> ScriptTag list \<Rightarrow> query_result"
  heap :: "SajkoLoader list"
  SajkoLoader_instance :: "nat option"
  sajkoInstance :: "SajkoReplay option"
  loaderInstance :: "nat option"
  suspended :: "init_task list"
  effects :: "effect list"

definition deref :: "world \<Rightarrow> nat \<Rightarrow> SajkoLoader" where
  "deref w a = heap w ! a"

definition assign :: "nat \<Rightarrow> SajkoLoader \<Rightarrow> world \<Rightarrow> world" where
  "assign a l w = w\<lparr>heap := (heap w)[a := l]\<rparr>"

definition emit :: "effect list \<Rightarrow> world \<Rightarrow> world" where
  "emit es w = w\<lparr>effects := effects w @ es\<rparr>"

text \<open>\<open>getDefaultCdnUrl\<close>: \<open>this.config.apiEndpoint || 'https://app.sajko.sk'\<close>\<close>

definition getDefaultCdnUrl :: "SajkoConfig \<Rightarrow> string" where
  "getDefaultCdnUrl cfg = or_str (apiEndpoint cfg) ''https://app.sajko.sk''"

text \<open>
  The constructor: each option gets its default when it is falsy, and then
  \<open>...options\<close> writes every option that was given over the result, a falsy one too.
\<close>

definition new_SajkoLoader :: "SajkoConfig \<Rightarrow> LoaderOptions \<Rightarrow> SajkoLoader" where
  "new_SajkoLoader cfg opts =
     \<lparr>scriptPromise = None,
      config = cfg,
      options =
        \<lparr>cdnUrl = override (Some (or_str (cdnUrl opts) (getDefaultCdnUrl cfg))) (cdnUrl opts),
         version = override (Some (or_str (version opts) ''v4'')) (version opts),
         timeout = override (Some (or_num (timeout opts) 30000)) (timeout opts),
         retryAttempts =
           override (Some (or_number (retryAttempts opts) (Num 3))) (retryAttempts opts),
         retryDelay = override (Some (or_num (retryDelay opts) 1000)) (retryDelay opts)\<rparr>,
      isLoaded = False\<rparr>"

text \<open>\<open>getInstance\<close>: the loader is made on the first call only.\<close>

definition getInstance :: "SajkoConfig \<Rightarrow> LoaderOptions option \<Rightarrow> world \<Rightarrow> nat \<times> world" where
  "getInstance cfg opts w =
     (case SajkoLoader_instance w of
        None \<Rightarrow>
          (let a = length (heap w);
               l = new_SajkoLoader cfg (case opts of None \<Rightarrow> no_options | Some x \<Rightarrow> x)
           in (a, w\<lparr>heap := heap w @ [l], SajkoLoader_instance := Some a\<rparr>))
      | Some a \<Rightarrow> (a, w))"

text \<open>\<open>getScriptUrl\<close>\<close>

definition getScriptUrl :: "SajkoLoader \<Rightarrow> string" where
  "getScriptUrl l =
     (let baseUrl = or_str (cdnUrl (options l)) (getDefaultCdnUrl (config l));
          ver = (case version (options l) of None \<Rightarrow> ''undefined'' | Some v \<Rightarrow> v)
      in if truthy_str (cdnUrl (options l))
         then baseUrl @ ''/'' @ ver @ ''/sajko-replay.min.js''
         else baseUrl @ ''/sajko-replay-v4.js'')"

text \<open>\<open>String(b)\<close> for a boolean.\<close>

definition String_bool :: "bool \<Rightarrow> string" where
  "String_bool b = (if b then ''true'' else ''false'')"

definition script_tag :: "SajkoLoader \<Rightarrow> ScriptTag" where
  "script_tag l =
     \<lparr>src = getScriptUrl l,
      async = True,
      dataset_websiteId = (case websiteId (config l) of None \<Rightarrow> ''undefined'' | Some s \<Rightarrow> s),
      dataset_apiEndpoint =
        (if truthy_str (apiEndpoint (config l)) then apiEndpoint (config l) else None),
      dataset_userConsent = map_option String_bool (hasUserConsent (config l)),
      dataset_debug = map_option String_bool (debug (config l))\<rparr>"

text \<open>\<open>document.querySelector(`script[src="${scriptUrl}"]`)\<close> on the page.\<close>

definition querySelector_script :: "string \<Rightarrow> world \<Rightarrow> query_result" where
  "querySelector_script scriptUrl w = document_querySelector w scriptUrl (document_scripts w)"

text \<open>
  \<open>loadScript\<close>, up to the return of its promise: the configuration goes to
  \<open>window.sajkoConfig\<close>; when the lookup throws, the promise is rejected; when it finds
  an element the promise is resolved; otherwise the element is built, the timeout is
  armed, the element is appended, and the promise stays open until the element fires
  or the timeout does.
\<close>

datatype script_promise = ScriptResolved | ScriptOpen | ScriptRejected load_error

definition loadScript :: "nat \<Rightarrow> world \<Rightarrow> script_promise \<times> world" where
  "loadScript a w =
     (let l = deref w a;
          w1 = w\<lparr>window_sajkoConfig := Some (config l)\<rparr>;
          scriptUrl = getScriptUrl l
      in case querySelector_script scriptUrl w1 of
           InvalidSelector \<Rightarrow> (ScriptRejected SelectorSyntaxError, w1)
         | Selected existingScript \<Rightarrow> (ScriptResolved, w1)
         | NoMatch \<Rightarrow>
             (let script = script_tag l;
                  w2 = emit [ScriptTimer (timeout (options l))] w1;
                  w3 = emit [AppendScript script]
                         (w2\<lparr>document_scripts := document_scripts w2 @ [script]\<rparr>)
              in (ScriptOpen, w3)))"

definition set_promise :: "nat \<Rightarrow> promise \<Rightarrow> world \<Rightarrow> world" where
  "set_promise a p w = assign a ((deref w a)\<lparr>scriptPromise := Some p\<rparr>) w"

text \<open>\<open>loadWithRetry(attempt)\<close>, up to its first suspension: it calls \<open>loadScript()\<close> and
  awaits the promise.\<close>

definition loadWithRetry :: "nat \<Rightarrow> nat \<Rightarrow> world \<Rightarrow> world" where
  "loadWithRetry a attempt w =
     (case loadScript a (emit [LoadScript attempt] w) of
        (ScriptResolved, w1) \<Rightarrow> set_promise a (Pending (AwaitResolved attempt)) w1
      | (ScriptOpen, w1) \<Rightarrow> set_promise a (Pending (AwaitScript attempt)) w1
      | (ScriptRejected error, w1) \<Rightarrow>
          set_promise a (Pending (AwaitRejected attempt error)) w1)"

text \<open>After \<open>await this.loadScript()\<close> went through: \<open>this.isLoaded = true\<close>, and the promise
  of \<open>loadWithRetry\<close> is fulfilled.\<close>

definition loadWithRetry_loaded :: "nat \<Rightarrow> world \<Rightarrow> world" where
  "loadWithRetry_loaded a w =
     assign a ((deref w a)\<lparr>isLoaded := True, scriptPromise := Some Fulfilled\<rparr>) w"

text \<open>The \<open>catch\<close> block: below \<open>retryAttempts\<close> it awaits \<open>delay(retryDelay)\<close>, otherwise it
  throws, and the promise of \<open>loadWithRetry\<close> is rejected.\<close>

definition loadWithRetry_catch :: "nat \<Rightarrow> nat \<Rightarrow> load_error \<Rightarrow> world \<Rightarrow> world" where
  "loadWithRetry_catch a attempt error w =
     (let l = deref w a
      in if less_number attempt (retryAttempts (options l))
         then set_promise a (Pending (AwaitDelay attempt))
                (emit [Delay (retryDelay (options l))] w)
         else set_promise a (Rejected (LoadFailed attempt error)) w)"

text \<open>
  \<open>load()\<close>, up to its first suspension or its return: with a \<open>scriptPromise\<close> it awaits
  that promise; without one, a loader that is loaded returns the engine handle, and
  otherwise \<open>loadWithRetry()\<close> is started and its promise kept and awaited.
\<close>

datatype load_result = LoadReturned SajkoReplay | LoadSuspended

definition load :: "nat \<Rightarrow> world \<Rightarrow> load_result \<times> world" where
  "load a w =
     (let l = deref w a
      in case scriptPromise l of
           Some p \<Rightarrow> (LoadSuspended, w)
         | None \<Rightarrow>
             (case (if isLoaded l then window_SajkoReplay w else None) of
                Some replay \<Rightarrow> (LoadReturned replay, w)
              | None \<Rightarrow> (LoadSuspended, loadWithRetry a 1 w)))"

text \<open>\<open>isScriptLoaded\<close>: \<open>this.isLoaded && !!window.SajkoReplay\<close>\<close>

definition isScriptLoaded :: "nat \<Rightarrow> world \<Rightarrow> bool" where
  "isScriptLoaded a w = (isLoaded (deref w a) \<and> window_SajkoReplay w \<noteq> None)"

text \<open>\<open>updateConfig\<close> of the loader.\<close>

definition loader_updateConfig :: "nat \<Rightarrow> SajkoConfig \<Rightarrow> world \<Rightarrow> world" where
  "loader_updateConfig a partial w =
     (let l = deref w a;
          l' = l\<lparr>config := spread (config l) partial\<rparr>;
          w1 = assign a l' w
      in if window_sajkoConfig w1 \<noteq> None then w1\<lparr>window_sajkoConfig := Some (config l')\<rparr>
         else w1)"

text \<open>
  How a call ends: it returns (for an \<open>async\<close> function, its promise is fulfilled at
  once), it throws (the promise is rejected at once), or, for an \<open>async\<close> function, it
  is suspended in an \<open>await\<close>.
\<close>

datatype 'a completion = Returned 'a | Threw load_error | Suspended

text \<open>\<open>script.remove()\<close> on the element at a position of the document.\<close>

definition remove_at :: "nat \<Rightarrow> 'a list \<Rightarrow> 'a list" where
  "remove_at i xs = take i xs @ drop (Suc i) xs"

text \<open>
  \<open>unload\<close> of the loader: the engine is stopped when it is recording; the element
  that the lookup selects is removed, if there is one; the globals are deleted and the
  loader is reset. When the lookup throws, what follows it is not done.
\<close>

definition loader_unload :: "nat \<Rightarrow> world \<Rightarrow> unit completion \<times> world" where
  "loader_unload a w =
     (let w1 = (case window_SajkoReplay w of
                  None \<Rightarrow> w
                | Some replay \<Rightarrow> if replay_isRecording replay then emit [EngineStop] w else w);
          scriptUrl = getScriptUrl (deref w1 a)
      in case querySelector_script scriptUrl w1 of
           InvalidSelector \<Rightarrow> (Threw SelectorSyntaxError, w1)
         | found \<Rightarrow>
             (let w2 = (case found of
                          Selected script \<Rightarrow>
                            w1\<lparr>document_scripts := remove_at script (document_scripts w1)\<rparr>
                        | _ \<Rightarrow> w1);
                  w3 = w2\<lparr>window_SajkoReplay := None, window_sajkoConfig := None,
                          window_sajkoRecorderV4Instance := None\<rparr>;
                  w4 = assign a ((deref w3 a)\<lparr>isLoaded := False, scriptPromise := None\<rparr>) w3
              in (Returned (), w4\<lparr>SajkoLoader_instance := None\<rparr>)))"

section \<open>The wrapper\<close>

text \<open>
  \<open>init\<close>, up to its first suspension. The existing instance is returned before the
  configuration is looked at; then \<open>websiteId\<close> is checked; then the loader is taken from
  \<open>getInstance\<close> and \<open>load()\<close> is called, and the call is suspended in
  \<open>await loaderInstance.load()\<close>.
\<close>

definition already_initialized :: "world \<Rightarrow> SajkoReplay option" where
  "already_initialized w =
     (case sajkoInstance w of
        None \<Rightarrow> None
      | Some inst \<Rightarrow>
          (case loaderInstance w of
             None \<Rightarrow> None
           | Some a \<Rightarrow> if isScriptLoaded a w then Some inst else None))"

definition init ::
  "SajkoConfig \<Rightarrow> LoaderOptions option \<Rightarrow> world \<Rightarrow> SajkoReplay completion \<times> world" where
  "init cfg opts w =
     (case already_initialized w of
        Some inst \<Rightarrow> (Returned inst, w)
      | None \<Rightarrow>
          if \<not> truthy_str (websiteId cfg) then (Threw WebsiteIdRequired, w)
          else
            (let (a, w1) = getInstance cfg opts w;
                 w2 = w1\<lparr>loaderInstance := Some a\<rparr>
             in case load a w2 of
                  (LoadReturned replay, w3) \<Rightarrow>
                    (Suspended, w3\<lparr>suspended := suspended w3 @ [HaveReplay replay]\<rparr>)
                | (LoadSuspended, w3) \<Rightarrow>
                    (Suspended, w3\<lparr>suspended := suspended w3 @ [AwaitLoad a]\<rparr>)))"

text \<open>
  The rest of a suspended \<open>init\<close>. With the handle in hand it assigns \<open>sajkoInstance\<close>
  and returns it. While \<open>load()\<close> is awaited: a rejected \<open>scriptPromise\<close> makes \<open>init\<close>
  throw; after a fulfilled one \<open>waitForReplay\<close> polls \<open>window.SajkoReplay\<close> and hands it
  over as soon as it is there. \<open>init_resume\<close> is one look at the suspended call; the
  result \<open>Suspended\<close> says that it waits on. The promise that the call awaits is read
  through the loader: it is the loader's \<open>scriptPromise\<close> as long as \<open>unload\<close> has not
  reset the loader, and \<open>unload\<close> is not among the events of the page below.
\<close>

definition drop_task :: "nat \<Rightarrow> world \<Rightarrow> world" where
  "drop_task i w = w\<lparr>suspended := take i (suspended w) @ drop (Suc i) (suspended w)\<rparr>"

definition init_resume :: "nat \<Rightarrow> world \<Rightarrow> SajkoReplay completion \<times> world" where
  "init_resume i w =
     (if i < length (suspended w) then
        (case suspended w ! i of
           HaveReplay replay \<Rightarrow> (Returned replay, (drop_task i w)\<lparr>sajkoInstance := Some replay\<rparr>)
         | AwaitLoad a \<Rightarrow>
             (case scriptPromise (deref w a) of
                Some (Rejected e) \<Rightarrow> (Threw e, drop_task i w)
              | Some Fulfilled \<Rightarrow>
                  (case window_SajkoReplay w of
                     Some replay \<Rightarrow>
                       (Returned replay, (drop_task i w)\<lparr>sajkoInstance := Some replay\<rparr>)
                   | None \<Rightarrow> (Suspended, w))
              | _ \<Rightarrow> (Suspended, w)))
      else (Suspended, w))"

text \<open>\<open>waitForReplay\<close> gives up after \<open>maxWait\<close> milliseconds without the handle: the
  suspended \<open>init\<close> throws.\<close>

definition init_give_up :: "nat \<Rightarrow> world \<Rightarrow> SajkoReplay completion \<times> world" where
  "init_give_up i w =
     (if i < length (suspended w) then
        (case suspended w ! i of
           HaveReplay replay \<Rightarrow> (Suspended, w)
         | AwaitLoad a \<Rightarrow>
             (case (scriptPromise (deref w a), window_SajkoReplay w) of
                (Some Fulfilled, None) \<Rightarrow> (Threw ReplayNotAvailable, drop_task i w)
              | _ \<Rightarrow> (Suspended, w)))
      else (Suspended, w))"

definition track :: "string \<Rightarrow> jvalue option \<Rightarrow> world \<Rightarrow> unit completion \<times> world" where
  "track event properties w =
     (case sajkoInstance w of
        None \<Rightarrow> (Returned (), w)
      | Some inst \<Rightarrow>
          if replay_has_trackEvent inst
          then (Returned (), emit [EngineTrackEvent event properties] w)
          else (Returned (), w))"

definition identify :: "string \<Rightarrow> jvalue option \<Rightarrow> world \<Rightarrow> unit completion \<times> world" where
  "identify userId traits w =
     (case sajkoInstance w of
        None \<Rightarrow> (Returned (), w)
      | Some inst \<Rightarrow>
          if replay_has_identify inst
          then (Returned (), emit [EngineIdentify userId traits] w)
          else (Returned (), w))"

definition getMetrics :: "world \<Rightarrow> SajkoMetrics option" where
  "getMetrics w =
     (case sajkoInstance w of None \<Rightarrow> None | Some inst \<Rightarrow> Some (replay_metrics inst))"

text \<open>\<open>flush\<close> is \<open>async\<close>: with an instance it is suspended in \<open>await sajkoInstance.flush()\<close>.\<close>

definition flush :: "world \<Rightarrow> unit completion \<times> world" where
  "flush w =
     (case sajkoInstance w of
        None \<Rightarrow> (Returned (), w)
      | Some inst \<Rightarrow> (Suspended, emit [EngineFlush] w))"

definition stop :: "world \<Rightarrow> unit completion \<times> world" where
  "stop w =
     (case sajkoInstance w of
        None \<Rightarrow> (Returned (), w)
      | Some inst \<Rightarrow> (Returned (), emit [EngineStop] w))"

definition getSessionId :: "world \<Rightarrow> string option" where
  "getSessionId w =
     (case sajkoInstance w of None \<Rightarrow> None | Some inst \<Rightarrow> Some (replay_sessionId inst))"

text \<open>\<open>sajkoInstance.visitorId || null\<close>\<close>

definition getVisitorId :: "world \<Rightarrow> string option" where
  "getVisitorId w =
     (case sajkoInstance w of
        None \<Rightarrow> None
      | Some inst \<Rightarrow> if truthy_str (replay_visitorId inst) then replay_visitorId inst else None)"

definition isRecording :: "world \<Rightarrow> bool" where
  "isRecording w =
     (case sajkoInstance w of None \<Rightarrow> False | Some inst \<Rightarrow> replay_isRecording inst)"

definition updateConfig :: "SajkoConfig \<Rightarrow> world \<Rightarrow> unit completion \<times> world" where
  "updateConfig partial w =
     (case loaderInstance w of
        None \<Rightarrow> (Returned (), w)
      | Some a \<Rightarrow> (Returned (), loader_updateConfig a partial w))"

text \<open>\<open>unload\<close>: when \<open>loaderInstance.unload()\<close> throws, the two assignments after it
  are not reached.\<close>

definition unload :: "world \<Rightarrow> unit completion \<times> world" where
  "unload w =
     (case loaderInstance w of
        None \<Rightarrow> (Returned (), w\<lparr>sajkoInstance := None, loaderInstance := None\<rparr>)
      | Some a \<Rightarrow>
          (case loader_unload a w of
             (Returned u, w1) \<Rightarrow> (Returned (), w1\<lparr>sajkoInstance := None, loaderInstance := None\<rparr>)
           | (c, w1) \<Rightarrow> (c, w1)))"

definition getInstance_wrapper :: "world \<Rightarrow> SajkoReplay option" where
  "getInstance_wrapper w = sajkoInstance w"

section \<open>The page over time\<close>

text \<open>
  Between two suspensions the code runs alone (one thread, one event loop). What can
  happen next on a page that uses the wrapper: some code calls \<open>init\<close>, or calls
  \<open>SajkoLoader.getInstance(config, options).load()\<close> itself; the script
  element that the loader appended fires \<open>load\<close> or \<open>error\<close>, or its timeout fires; a
  queued continuation of \<open>loadWithRetry\<close> runs; the retry delay is over; the replay
  script puts the engine handle on \<open>window\<close>; a suspended \<open>init\<close> is looked at, or its
  \<open>waitForReplay\<close> gives up. The callbacks are those of the one loader that
  \<open>SajkoLoader.instance\<close> holds; a callback whose promise is settled changes nothing.
  What follows the \<open>await\<close> in a direct \<open>load()\<close> only reads \<open>window.SajkoReplay\<close>, so
  that caller is not kept among the suspended ones.
\<close>

datatype event =
    Init SajkoConfig "LoaderOptions option"
  | LoadCall SajkoConfig "LoaderOptions option"
  | ScriptOnload
  | ScriptOnerror
  | ScriptTimeout
  | Continue
  | DelayElapsed
  | EngineDefines SajkoReplay
  | InitResumes nat
  | InitGivesUp nat

definition phase_of :: "world \<Rightarrow> nat \<Rightarrow> load_phase option" where
  "phase_of w a =
     (case scriptPromise (deref w a) of Some (Pending ph) \<Rightarrow> Some ph | _ \<Rightarrow> None)"

fun loader_step :: "event \<Rightarrow> nat \<Rightarrow> world \<Rightarrow> world" where
  "loader_step ScriptOnload a w =
     (case phase_of w a of Some (AwaitScript k) \<Rightarrow> loadWithRetry_loaded a w | _ \<Rightarrow> w)"
| "loader_step ScriptOnerror a w =
     (case phase_of w a of
        Some (AwaitScript k) \<Rightarrow> loadWithRetry_catch a k ScriptLoadError w
      | _ \<Rightarrow> w)"
| "loader_step ScriptTimeout a w =
     (case phase_of w a of
        Some (AwaitScript k) \<Rightarrow>
          loadWithRetry_catch a k (ScriptLoadTimeout (timeout (options (deref w a)))) w
      | _ \<Rightarrow> w)"
| "loader_step Continue a w =
     (case phase_of w a of
        Some (AwaitResolved k) \<Rightarrow> loadWithRetry_loaded a w
      | Some (AwaitRejected k error) \<Rightarrow> loadWithRetry_catch a k error w
      | _ \<Rightarrow> w)"
| "loader_step DelayElapsed a w =
     (case phase_of w a of Some (AwaitDelay k) \<Rightarrow> loadWithRetry a (k + 1) w | _ \<Rightarrow> w)"
| "loader_step ev a w = w"

fun step :: "event \<Rightarrow> world \<Rightarrow> world" where
  "step (Init cfg opts) w = snd (init cfg opts w)"
| "step (LoadCall cfg opts) w = (case getInstance cfg opts w of (a, w1) \<Rightarrow> snd (load a w1))"
| "step (EngineDefines replay) w = w\<lparr>window_SajkoReplay := Some replay\<rparr>"
| "step (InitResumes i) w = snd (init_resume i w)"
| "step (InitGivesUp i) w = snd (init_give_up i w)"
| "step ev w = (case SajkoLoader_instance w of None \<Rightarrow> w | Some a \<Rightarrow> loader_step ev a w)"

definition run :: "event list \<Rightarrow> world \<Rightarrow> world" where
  "run evs w = fold step evs w"

text \<open>A page on which the wrapper has not run: no loader, no instance, nothing
  suspended, no effect yet. The document, the lookup and the globals are whatever the
  page has.\<close>

definition fresh_page :: "world \<Rightarrow> bool" where
  "fresh_page w =
     (heap w = [] \<and> SajkoLoader_instance w = None \<and> sajkoInstance w = None
      \<and> loaderInstance w = None \<and> suspended w = [] \<and> effects w = [])"

text \<open>
  The lookup that selects by the \<open>src\<close> text: the first script element whose \<open>src\<close>
  attribute is the given text, by position.
\<close>

fun index_of_src :: "string \<Rightarrow> ScriptTag list \<Rightarrow> nat option" where
  "index_of_src v [] = None"
| "index_of_src v (t # ts) =
     (if src t = v then Some 0 else map_option Suc (index_of_src v ts))"

definition select_by_src :: "string \<Rightarrow> ScriptTag list \<Rightarrow> query_result" where
  "select_by_src v ds = (case index_of_src v ds of None \<Rightarrow> NoMatch | Some i \<Rightarrow> Selected i)"


text \<open>
  A lookup to run the model on. Between the quotes of \<open>script[src="..."]\<close> the URL is
  read as a CSS string: a backslash followed by a character that is no hexadecimal
  digit and no line break stands for that character, and any other character but the
  quote and the line breaks stands for itself; the selector then selects by the text
  that was read. So a URL without backslash, quote and line break selects by itself,
  and a URL with such a backslash selects by the URL without the backslash. For the
  other URLs (a quote or a line break outside an escape, a hexadecimal escape, a
  backslash at the end) the selector depends on more of the grammar; this lookup
  throws on them, and it is not run on them here.
\<close>

definition is_hex_digit :: "char \<Rightarrow> bool" where
  "is_hex_digit c = (c \<in> set ''0123456789abcdefABCDEF'')"

definition is_line_break :: "char \<Rightarrow> bool" where
  "is_line_break c = (c = CHR 0x0A \<or> c = CHR 0x0C \<or> c = CHR 0x0D)"

fun css_string_value :: "string \<Rightarrow> string option" where
  "css_string_value [] = Some []"
| "css_string_value [c] =
     (if c = CHR 0x5C \<or> c = CHR 0x22 \<or> is_line_break c then None else Some [c])"
| "css_string_value (c # d # cs) =
     (if c = CHR 0x5C then
        (if is_hex_digit d \<or> is_line_break d then None
         else map_option (Cons d) (css_string_value cs))
      else if c = CHR 0x22 \<or> is_line_break c then None
      else map_option (Cons c) (css_string_value (d # cs)))"

definition css_select :: "string \<Rightarrow> ScriptTag list \<Rightarrow> query_result" where
  "css_select scriptUrl ds =
     (case css_string_value scriptUrl of
        None \<Rightarrow> InvalidSelector
      | Some v \<Rightarrow> select_by_src v ds)"

definition empty_page :: world where
  "empty_page =
     \<lparr>window_SajkoReplay = None, window_sajkoConfig = None,
      window_sajkoRecorderV4Instance = None, document_scripts = [],
      document_querySelector = css_select, heap = [],
      SajkoLoader_instance = None, sajkoInstance = None, loaderInstance = None,
      suspended = [], effects = []\<rparr>"

text \<open>The script elements that were appended, and the calls of \<open>loadScript\<close>.\<close>

fun is_fetch :: "effect \<Rightarrow> bool" where
  "is_fetch (AppendScript t) = True"
| "is_fetch e = False"

fun is_attempt :: "effect \<Rightarrow> bool" where
  "is_attempt (LoadScript n) = True"
| "is_attempt e = False"

definition fetches :: "world \<Rightarrow> nat" where
  "fetches w = length (filter is_fetch (effects w))"

definition attempts :: "world \<Rightarrow> nat" where
  "attempts w = length (filter is_attempt (effects w))"

text \<open>An engine handle and a configuration to run the model on.\<close>

definition example_replay :: SajkoReplay where
  "example_replay =
     \<lparr>replay_isRecording = True, replay_sessionId = ''s-1'', replay_visitorId = Some ''v-1'',
      replay_version = ''4.0.0'', replay_useWasm = False, replay_has_trackEvent = True,
      replay_has_identify = True,
      replay_metrics =
        \<lparr>metrics_sessionId = ''s-1'', metrics_isRecording = True, queueSize = 0,
         hasWasm = False, wasmMetrics = None\<rparr>\<rparr>"

definition example_config :: SajkoConfig where
  "example_config = empty_config\<lparr>websiteId := Some ''site-1''\<rparr>"

text \<open>The page after one \<open>init\<close> has gone through: the script fired \<open>load\<close>, the
  engine put its handle on \<open>window\<close>, and the suspended \<open>init\<close> took it.\<close>

definition example_loaded_page :: world where
  "example_loaded_page =
     run [Init example_config None, ScriptOnload, EngineDefines example_replay, InitResumes 0]
       empty_page"

text \<open>\<open>window.SajkoReplay?.isRecording\<close>\<close>

definition recording :: "world \<Rightarrow> bool" where
  "recording w =
     (case window_SajkoReplay w of None \<Rightarrow> False | Some replay \<Rightarrow> replay_isRecording replay)"

section \<open>Retries and what stays true of the page\<close>

text \<open>
  The calls of \<open>loadScript\<close> and of \<open>delay\<close> among the effects, and what they look like
  after \<open>k\<close> attempts: attempt 1, a delay, attempt 2, a delay, and so on up to attempt
  \<open>k\<close>.
\<close>

fun is_retry_effect :: "effect \<Rightarrow> bool" where
  "is_retry_effect (LoadScript n) = True"
| "is_retry_effect (Delay d) = True"
| "is_retry_effect e = False"

definition retry_effects :: "world \<Rightarrow> effect list" where
  "retry_effects w = filter is_retry_effect (effects w)"

fun retry_trace :: "int option \<Rightarrow> nat \<Rightarrow> effect list" where
  "retry_trace d 0 = []"
| "retry_trace d (Suc 0) = [LoadScript 1]"
| "retry_trace d (Suc (Suc k)) = retry_trace d (Suc k) @ [Delay d, LoadScript (Suc (Suc k))]"

text \<open>
  Attempt \<open>k\<close> is made only as the first one, or after attempt \<open>k - 1\<close> failed below
  \<open>retryAttempts\<close>.
\<close>

definition attempt_reached :: "nat \<Rightarrow> js_number option \<Rightarrow> bool" where
  "attempt_reached k n = (1 \<le> k \<and> (k = 1 \<or> less_number (k - 1) n))"

text \<open>
  How the retry effects so far fit the state of the promise of \<open>loadWithRetry\<close>, for the
  delay \<open>d\<close> and the \<open>retryAttempts\<close> \<open>n\<close>: \<open>k\<close> attempts were made, \<open>k\<close> is the attempt
  that is in progress or was the last, and a delay is awaited only after an attempt
  below \<open>n\<close>.
\<close>

fun retry_shape ::
  "int option \<Rightarrow> js_number option \<Rightarrow> effect list \<Rightarrow> promise option \<Rightarrow> bool" where
  "retry_shape d n es None = (es = [])"
| "retry_shape d n es (Some (Pending (AwaitScript k))) =
     (es = retry_trace d k \<and> attempt_reached k n)"
| "retry_shape d n es (Some (Pending (AwaitResolved k))) =
     (es = retry_trace d k \<and> attempt_reached k n)"
| "retry_shape d n es (Some (Pending (AwaitRejected k e))) =
     (es = retry_trace d k \<and> attempt_reached k n)"
| "retry_shape d n es (Some (Pending (AwaitDelay k))) =
     (es = retry_trace d k @ [Delay d] \<and> 1 \<le> k \<and> less_number k n)"
| "retry_shape d n es (Some Fulfilled) =
     (let k = length (filter is_attempt es)
      in es = retry_trace d k \<and> attempt_reached k n)"
| "retry_shape d n es (Some (Rejected e)) =
     (let k = length (filter is_attempt es)
      in es = retry_trace d k \<and> attempt_reached k n)"

text \<open>
  What holds of a page that only \<open>init\<close>, \<open>load()\<close> on the singleton and the events of
  the page have touched: either the wrapper has not run, or there is the one loader,
  the wrapper holds no other, it has started loading, it is marked loaded exactly when
  its promise is fulfilled, no more script elements were appended than attempts were
  made, and the retry effects fit the promise.
\<close>

definition loader_inv :: "world \<Rightarrow> bool" where
  "loader_inv w =
     (fresh_page w \<or>
      (SajkoLoader_instance w = Some 0
       \<and> (loaderInstance w = None \<or> loaderInstance w = Some 0)
       \<and> length (heap w) = 1
       \<and> scriptPromise (heap w ! 0) \<noteq> None
       \<and> isLoaded (heap w ! 0) = (scriptPromise (heap w ! 0) = Some Fulfilled)
       \<and> fetches w \<le> attempts w
       \<and> retry_shape (retryDelay (options (heap w ! 0))) (retryAttempts (options (heap w ! 0)))
            (retry_effects w) (scriptPromise (heap w ! 0))))"

text \<open>
  A bound on what is left of a load for the limit \<open>n\<close>: every change of the promise's
  state brings it down.
\<close>

fun remaining :: "int \<Rightarrow> promise option \<Rightarrow> nat" where
  "remaining n None = 2 * nat n + 4"
| "remaining n (Some (Pending (AwaitScript k))) = 2 * nat (n - int k) + 3"
| "remaining n (Some (Pending (AwaitRejected k e))) = 2 * nat (n - int k) + 3"
| "remaining n (Some (Pending (AwaitDelay k))) = 2 * nat (n - int k) + 2"
| "remaining n (Some (Pending (AwaitResolved k))) = 1"
| "remaining n (Some Fulfilled) = 0"
| "remaining n (Some (Rejected e)) = 0"

text \<open>The part of the page that the loader works on.\<close>

definition view ::
  "world \<Rightarrow> SajkoLoader list \<times> effect list \<times> ScriptTag list \<times> nat option" where
  "view w = (heap w, effects w, document_scripts w, SajkoLoader_instance w)"

text \<open>The invariant of a page with the loader, on that part.\<close>

fun binv ::
  "SajkoLoader list \<times> effect list \<times> ScriptTag list \<times> nat option \<Rightarrow> bool" where
  "binv (h, es, ds, si) =
     (si = Some 0 \<and> length h = 1
      \<and> scriptPromise (h ! 0) \<noteq> None
      \<and> isLoaded (h ! 0) = (scriptPromise (h ! 0) = Some Fulfilled)
      \<and> length (filter is_fetch es) \<le> length (filter is_attempt es)
      \<and> retry_shape (retryDelay (options (h ! 0))) (retryAttempts (options (h ! 0)))
           (filter is_retry_effect es) (scriptPromise (h ! 0)))"

text \<open>
  A lookup finds the script with a URL when, in every document that holds an element
  with that \<open>src\<close>, it selects an element. With such a lookup for the loader's script
  URL, the page has this besides: at most one script element was appended, and when one
  was, the document holds an element with that \<open>src\<close>.
\<close>

definition lookup_finds :: "(string \<Rightarrow> ScriptTag list \<Rightarrow> query_result) \<Rightarrow> string \<Rightarrow> bool" where
  "lookup_finds select u =
     (\<forall>ds. (\<exists>t \<in> set ds. src t = u) \<longrightarrow> (\<exists>i. select u ds = Selected i))"

fun finv ::
  "(string \<Rightarrow> ScriptTag list \<Rightarrow> query_result) \<Rightarrow>
   SajkoLoader list \<times> effect list \<times> ScriptTag list \<times> nat option \<Rightarrow> bool" where
  "finv select (h, es, ds, si) =
     (lookup_finds select (getScriptUrl (h ! 0)) \<longrightarrow>
        length (filter is_fetch es) \<le> 1
        \<and> (filter is_fetch es \<noteq> [] \<longrightarrow> (\<exists>t \<in> set ds. src t = getScriptUrl (h ! 0))))"

text \<open>A URL with a backslash, and the options that make it the CDN of the loader.\<close>

definition backslash_url :: string where
  "backslash_url = ''https://cdn.example.com'' @ [CHR 0x5C] @ ''static''"

definition backslash_options :: LoaderOptions where
  "backslash_options = no_options\<lparr>cdnUrl := Some backslash_url\<rparr>"

section \<open>Properties of the bridge stub\<close>

lemma wf_object_filter: "wf_object obj \<Longrightarrow> wf_object (filter P obj)"
  by (simp add: wf_object_def distinct_map_filter)

lemma obj_get_member:
  "wf_object obj \<Longrightarrow> (k, v) \<in> set obj \<Longrightarrow> obj_get obj k = v"
  by (simp add: obj_get_def wf_object_def)

lemma drop_if_empty_filter:
  assumes "wf_object obj"
  shows "drop_if_empty k obj = filter (\<lambda>kv. \<not> (fst kv = k \<and> \<not> present kv)) obj"
proof (cases "k \<in> fst ` set obj")
  case False
  then have "\<And>kv. kv \<in> set obj \<Longrightarrow> fst kv \<noteq> k" by auto
  then have "filter (\<lambda>kv. \<not> (fst kv = k \<and> \<not> present kv)) obj = obj"
    and "obj_delete obj k = obj"
    by (simp_all add: obj_delete_def filter_id_conv)
  then show ?thesis by (simp add: drop_if_empty_def)
next
  case True
  then obtain v where v: "(k, v) \<in> set obj" by auto
  have get: "obj_get obj k = v" using assms v by (rule obj_get_member)
  have only: "\<And>kv. kv \<in> set obj \<Longrightarrow> fst kv = k \<Longrightarrow> kv = (k, v)"
    using assms v unfolding wf_object_def by (metis eq_key_imp_eq_value prod.collapse)
  show ?thesis
  proof (cases "present (k, v)")
    case True
    then have "\<And>kv. kv \<in> set obj \<Longrightarrow> \<not> (fst kv = k \<and> \<not> present kv)"
      using only by auto
    then have "filter (\<lambda>kv. \<not> (fst kv = k \<and> \<not> present kv)) obj = obj"
      by (simp add: filter_id_conv)
    with True get show ?thesis by (simp add: drop_if_empty_def present_def)
  next
    case False
    then have eq: "\<And>kv. kv \<in> set obj \<Longrightarrow>
        (\<not> (fst kv = k \<and> \<not> present kv)) = (fst kv \<noteq> k)"
      using only by auto
    have "filter (\<lambda>kv. \<not> (fst kv = k \<and> \<not> present kv)) obj = obj_delete obj k"
      unfolding obj_delete_def by (rule filter_cong [OF refl]) (rule eq)
    with False get show ?thesis by (auto simp add: drop_if_empty_def present_def)
  qed
qed

lemma fold_drop_if_empty:
  "wf_object obj \<Longrightarrow>
   fold drop_if_empty ks obj = filter (\<lambda>kv. \<not> (fst kv \<in> set ks \<and> \<not> present kv)) obj"
proof (induction ks arbitrary: obj)
  case Nil
  then show ?case by simp
next
  case (Cons k ks)
  have wf': "wf_object (drop_if_empty k obj)"
    using Cons.prems by (simp add: drop_if_empty_filter wf_object_filter)
  have "fold drop_if_empty (k # ks) obj = fold drop_if_empty ks (drop_if_empty k obj)"
    by simp
  also have "\<dots> = filter (\<lambda>kv. \<not> (fst kv \<in> set ks \<and> \<not> present kv)) (drop_if_empty k obj)"
    using wf' by (rule Cons.IH)
  also have "\<dots> = filter (\<lambda>kv. \<not> (fst kv \<in> set (k # ks) \<and> \<not> present kv)) obj"
    using Cons.prems by (simp add: drop_if_empty_filter) (rule filter_cong [OF refl], auto)
  finally show ?case .
qed

lemma optimizeEvent_filter:
  assumes "wf_object event"
  shows "optimizeEvent event = filter present event"
proof -
  have "optimizeEvent event =
      filter (\<lambda>kv. \<not> (fst kv \<in> set (obj_keys event) \<and> \<not> present kv)) event"
    using assms by (simp add: optimizeEvent_def fold_drop_if_empty)
  also have "\<dots> = filter present event"
    by (rule filter_cong [OF refl]) (auto simp add: obj_keys_def)
  finally show ?thesis .
qed

text \<open>
  C4. The fallback compaction keeps the events and their order: the payload is the
  serialisation of a list with as many events as the input, the event at each position
  is the input event at that position with exactly its \<open>null\<close> and \<open>undefined\<close> fields
  removed (the other fields in their order), and the payload is marked uncompressed.
\<close>

theorem processBatch_structure:
  assumes "\<forall>event \<in> set events. wf_object event"
  shows "compressed (processBatch JSON_stringify events) = False
       \<and> payload_data (processBatch JSON_stringify events) =
           JSON_stringify (JArr (map JObj (optimizeEvents events)))
       \<and> length (optimizeEvents events) = length events
       \<and> (\<forall>i < length events. optimizeEvents events ! i = filter present (events ! i))"
  using assms by (simp add: processBatch_def optimizeEvents_def optimizeEvent_filter)

theorem processBatch_structure_witness:
  "wf_object [(''type'', JStr ''click''), (''x'', JNull), (''t'', JNum 5)]
   \<and> wf_object [(''type'', JStr ''scroll''), (''y'', JUndefined)]
   \<and> optimizeEvents [[(''type'', JStr ''click''), (''x'', JNull), (''t'', JNum 5)],
                     [(''type'', JStr ''scroll''), (''y'', JUndefined)]]
       = [[(''type'', JStr ''click''), (''t'', JNum 5)], [(''type'', JStr ''scroll'')]]
   \<and> compressed (processBatch id [[(''type'', JStr ''click''), (''x'', JNull), (''t'', JNum 5)],
                     [(''type'', JStr ''scroll''), (''y'', JUndefined)]]) = False"
proof -
  let ?evs = "[[(''type'', JStr ''click''), (''x'', JNull), (''t'', JNum 5)],
               [(''type'', JStr ''scroll''), (''y'', JUndefined)]]"
  have wf: "\<forall>event \<in> set ?evs. wf_object event"
    by (simp add: wf_object_def)
  from processBatch_structure [OF wf, of id]
  have "compressed (processBatch id ?evs) = False"
    and "length (optimizeEvents ?evs) = length ?evs"
    and "\<forall>i < length ?evs. optimizeEvents ?evs ! i = filter present (?evs ! i)"
    by blast+
  moreover from this have "optimizeEvents ?evs ! 0 = filter present (?evs ! 0)"
    and "optimizeEvents ?evs ! 1 = filter present (?evs ! 1)"
    by simp_all
  ultimately have "optimizeEvents ?evs =
      [[(''type'', JStr ''click''), (''t'', JNum 5)], [(''type'', JStr ''scroll'')]]"
    by (intro nth_equalityI) (auto simp add: present_def less_Suc_eq)
  with wf \<open>compressed (processBatch id ?evs) = False\<close> show ?thesis by simp
qed

section \<open>Properties of the Vue composable\<close>

text \<open>
  C10. Without the plugin (\<open>inject\<close> gives \<open>undefined\<close>) \<open>useSajko\<close> gives a bundle whose
  \<open>track\<close> and \<open>identify\<close> return normally and leave the application as it is, whose
  \<open>getMetrics\<close> and \<open>getSessionId\<close> return \<open>null\<close> and whose \<open>isRecording\<close> returns
  \<open>false\<close>; none of them throws.
\<close>

theorem useSajko_without_plugin:
  "SajkoComposable.track (useSajko None) event properties s = Inr s
   \<and> SajkoComposable.identify (useSajko None) userId traits s = Inr s
   \<and> SajkoComposable.getMetrics (useSajko None) s = Inr None
   \<and> SajkoComposable.getSessionId (useSajko None) s = Inr None
   \<and> SajkoComposable.isRecording (useSajko None) s = Inr False"
  by (simp add: useSajko_def)

section \<open>Properties of the masking\<close>

lemmas jvalue_induct = deep_keys_deep_keys_fields_deep_keys_items.induct

lemma json_copy_id:
  "json_data v \<Longrightarrow> json_copy v = v"
  "json_data_fields fs \<Longrightarrow> json_copy_fields fs = fs"
  "json_data_items xs \<Longrightarrow> json_copy_items xs = xs"
  by (induction v and fs and xs rule: jvalue_induct) auto

lemma obj_keys_deep_keys: "set (obj_keys fs) \<subseteq> set (deep_keys_fields fs)"
  by (induction fs) (auto simp add: obj_keys_def)

lemma mask_total:
  "''hasOwnProperty'' \<notin> set (deep_keys v) \<Longrightarrow> \<exists>v'. maskObject v = Inr v'"
  "''hasOwnProperty'' \<notin> set (deep_keys_fields fs) \<Longrightarrow> \<exists>fs'. maskFields fs = Inr fs'"
  "''hasOwnProperty'' \<notin> set (deep_keys_items xs) \<Longrightarrow> \<exists>xs'. maskItems xs = Inr xs'"
proof (induction v and fs and xs rule: jvalue_induct)
  case (1 fs)
  with obj_keys_deep_keys [of fs] show ?case by auto
qed auto

lemma mask_primitive: "\<not> is_object v \<Longrightarrow> maskObject v = Inr v"
  by (cases v) simp_all

lemma mask_sensitive:
  "maskObject v = Inr v' \<Longrightarrow> \<forall>(k, x) \<in> set (deep_fields v'). is_sensitive k \<longrightarrow> x = MASKED"
  "maskFields fs = Inr fs' \<Longrightarrow> \<forall>(k, x) \<in> set (deep_fields_fields fs'). is_sensitive k \<longrightarrow> x = MASKED"
  "maskItems xs = Inr xs' \<Longrightarrow> \<forall>(k, x) \<in> set (deep_fields_items xs'). is_sensitive k \<longrightarrow> x = MASKED"
proof (induction v and fs and xs arbitrary: v' and fs' and xs' rule: jvalue_induct)
  case (5 k v fs)
  show ?case
  proof (cases "is_sensitive k")
    case True
    with 5 show ?thesis by (auto simp add: MASKED_def split: sum.splits)
  next
    case False
    show ?thesis
    proof (cases "is_object v")
      case True
      with False 5 show ?thesis by (auto split: sum.splits)
    next
      case nobj: False
      then have "deep_fields v = []" by (cases v) simp_all
      with False nobj 5 show ?thesis by (auto split: sum.splits)
    qed
  qed
next
  case (7 x xs)
  show ?case
  proof (cases "is_object x")
    case True
    with 7 show ?thesis by (auto split: sum.splits)
  next
    case False
    then have "deep_fields x = []" by (cases x) simp_all
    with False 7 show ?thesis by (auto split: sum.splits)
  qed
qed (auto split: if_splits sum.splits)

lemma maskFields_map_of:
  "maskFields fs = Inr fs' \<Longrightarrow> map_of fs k = Some v \<Longrightarrow>
     (is_sensitive k \<longrightarrow> map_of fs' k = Some MASKED)
   \<and> (\<not> is_sensitive k \<longrightarrow> (\<exists>v'. maskObject v = Inr v' \<and> map_of fs' k = Some v'))"
proof (induction fs arbitrary: fs')
  case Nil
  then show ?case by simp
next
  case (Cons kv fs)
  obtain k0 v0 where kv: "kv = (k0, v0)" by (cases kv)
  from Cons.prems(1) obtain fs0 where rest: "maskFields fs = Inr fs0"
    unfolding kv by (auto split: if_splits sum.splits)
  show ?case
  proof (cases "k0 = k")
    case True
    with Cons.prems kv rest show ?thesis
      by (auto simp add: mask_primitive split: if_splits sum.splits)
  next
    case False
    with Cons.prems kv rest have "map_of fs k = Some v" and "map_of fs' k = map_of fs0 k"
      by (auto split: if_splits sum.splits)
    with Cons.IH [OF rest] show ?thesis by simp
  qed
qed

lemma maskItems_nth:
  "maskItems xs = Inr xs' \<Longrightarrow> i < length xs \<Longrightarrow>
     i < length xs' \<and> maskObject (xs ! i) = Inr (xs' ! i)"
proof (induction xs arbitrary: xs' i)
  case Nil
  then show ?case by simp
next
  case (Cons x xs)
  from Cons.prems(1) obtain xs0 where rest: "maskItems xs = Inr xs0"
    by (auto split: if_splits sum.splits)
  show ?case
  proof (cases i)
    case 0
    with Cons.prems rest show ?thesis
      by (auto simp add: mask_primitive split: if_splits sum.splits)
  next
    case (Suc j)
    with Cons.prems rest have "j < length xs" and "xs' ! i = xs0 ! j" and "length xs' = Suc (length xs0)"
      by (auto split: if_splits sum.splits)
    with Cons.IH [OF rest, of j] Suc show ?thesis by simp
  qed
qed

lemma mask_lookup:
  "maskObject v = Inr v' \<Longrightarrow> clean_path p \<Longrightarrow> lookup v p = Some x \<Longrightarrow>
   \<exists>x'. maskObject x = Inr x' \<and> lookup v' p = Some x'"
proof (induction p arbitrary: v v')
  case Nil
  then show ?case by simp
next
  case (Cons s p)
  show ?case
  proof (cases s)
    case (Key k)
    with Cons.prems(3) obtain fs u where v: "v = JObj fs" and u: "map_of fs k = Some u"
      and x: "lookup u p = Some x"
      by (cases v) (auto split: option.splits)
    from Cons.prems(1) v obtain fs' where v': "v' = JObj fs'" and fs': "maskFields fs = Inr fs'"
      by (auto split: if_splits sum.splits)
    from Cons.prems(2) Key have k: "\<not> is_sensitive k" and p: "clean_path p"
      by (simp_all add: clean_path_def)
    from maskFields_map_of [OF fs' u] k obtain u' where
      u': "maskObject u = Inr u'" "map_of fs' k = Some u'" by blast
    from Cons.IH [OF u'(1) p x] obtain x' where "maskObject x = Inr x'" "lookup u' p = Some x'"
      by blast
    with Key v' u'(2) show ?thesis by simp
  next
    case (Idx i)
    with Cons.prems(3) obtain xs where v: "v = JArr xs" and i: "i < length xs"
      and x: "lookup (xs ! i) p = Some x"
      by (cases v) (auto split: if_splits)
    from Cons.prems(1) v obtain xs' where v': "v' = JArr xs'" and xs': "maskItems xs = Inr xs'"
      by (auto split: sum.splits)
    from Cons.prems(2) Idx have p: "clean_path p" by (simp add: clean_path_def)
    from maskItems_nth [OF xs' i] have i': "i < length xs'"
      and m: "maskObject (xs ! i) = Inr (xs' ! i)" by simp_all
    from Cons.IH [OF m p x] obtain x' where "maskObject x = Inr x'" "lookup (xs' ! i) p = Some x'"
      by blast
    with Idx v' i' show ?thesis by simp
  qed
qed

lemma lookup_append:
  "lookup v (p @ q) = (case lookup v p of None \<Rightarrow> None | Some u \<Rightarrow> lookup u q)"
proof (induction v p rule: lookup.induct)
  case (1 v)
  then show ?case by simp
next
  case (2 fs k p)
  then show ?case by (simp split: option.splits)
next
  case (3 xs i p)
  then show ?case by simp
qed (simp_all)

lemma lookup_Key_last:
  "lookup v (p @ [Key k]) = Some x \<Longrightarrow> \<exists>fs. lookup v p = Some (JObj fs) \<and> map_of fs k = Some x"
proof -
  assume a: "lookup v (p @ [Key k]) = Some x"
  then obtain u where u: "lookup v p = Some u" and l: "lookup u [Key k] = Some x"
    by (auto simp add: lookup_append split: option.splits)
  from l obtain fs where "u = JObj fs" "map_of fs k = Some x"
    by (cases u) (auto split: option.splits)
  with u show ?thesis by simp
qed

lemma mask_lookup_sensitive:
  assumes "maskObject v = Inr v'" "clean_path p" "is_sensitive k"
    and "lookup v (p @ [Key k]) = Some x"
  shows "lookup v' (p @ [Key k]) = Some MASKED"
proof -
  from lookup_Key_last [OF assms(4)] obtain fs where
    fs: "lookup v p = Some (JObj fs)" "map_of fs k = Some x" by blast
  from mask_lookup [OF assms(1,2) fs(1)] obtain u' where
    u': "maskObject (JObj fs) = Inr u'" "lookup v' p = Some u'" by blast
  from u'(1) obtain fs' where "u' = JObj fs'" "maskFields fs = Inr fs'"
    by (auto split: if_splits sum.splits)
  with maskFields_map_of [OF _ fs(2), of fs'] assms(3) u'(2) show ?thesis
    by (simp add: lookup_append)
qed

text \<open>
  C5, as amended. For a JSON record (no \<open>undefined\<close> inside) none of whose objects has
  an own key named \<open>hasOwnProperty\<close>, \<open>maskPrivateData\<close> returns a new value, not the
  caller's, and leaves every value that existed before, the input record among them,
  as it was. In the returned value every field at any depth whose key contains a
  sensitive name, case-insensitively, holds \<open>'[MASKED]'\<close>; a sensitive field of the
  input that is reached through non-sensitive keys is still there and holds the
  sentinel (what lay beneath it is gone); and a field reached through non-sensitive
  keys only, whose value is no object or array, keeps its value. Objects and arrays
  under non-sensitive keys are masked in turn.
\<close>

theorem maskPrivateData_masks:
  assumes "data < length s" and "json_data (s ! data)"
    and "''hasOwnProperty'' \<notin> set (deep_keys (s ! data))"
  shows "\<exists>masked s'. maskPrivateData s data = Inr (masked, s')
     \<and> masked \<noteq> data \<and> masked < length s'
     \<and> (\<forall>a < length s. s' ! a = s ! a)
     \<and> (\<forall>(k, x) \<in> set (deep_fields (s' ! masked)). is_sensitive k \<longrightarrow> x = MASKED)
     \<and> (\<forall>p k x. clean_path p \<and> is_sensitive k \<and> lookup (s ! data) (p @ [Key k]) = Some x
           \<longrightarrow> lookup (s' ! masked) (p @ [Key k]) = Some MASKED)
     \<and> (\<forall>p x. clean_path p \<and> lookup (s ! data) p = Some x \<and> \<not> is_object x
           \<longrightarrow> lookup (s' ! masked) p = Some x)"
proof -
  let ?d = "s ! data"
  from assms(2) have copy: "JSON_roundtrip ?d = Inr ?d"
    by (cases ?d) (simp_all add: JSON_roundtrip_def json_copy_id)
  from mask_total(1) [OF assms(3)] obtain walked where m: "maskObject ?d = Inr walked"
    by blast
  let ?s' = "(s @ [?d])[length s := walked]"
  have r: "maskPrivateData s data = Inr (length s, ?s')"
    using copy m by (simp add: maskPrivateData_def Let_def)
  have at: "?s' ! length s = walked" by simp
  have old: "\<forall>a < length s. ?s' ! a = s ! a" by (simp add: nth_append)
  have "length s \<noteq> data" using assms(1) by simp
  moreover have "length s < length ?s'" by simp
  moreover have "\<forall>(k, x) \<in> set (deep_fields (?s' ! length s)). is_sensitive k \<longrightarrow> x = MASKED"
    unfolding at using m by (rule mask_sensitive(1))
  moreover have "\<forall>p k x. clean_path p \<and> is_sensitive k \<and> lookup ?d (p @ [Key k]) = Some x
           \<longrightarrow> lookup (?s' ! length s) (p @ [Key k]) = Some MASKED"
    unfolding at using mask_lookup_sensitive [OF m] by blast
  moreover have "\<forall>p x. clean_path p \<and> lookup ?d p = Some x \<and> \<not> is_object x
           \<longrightarrow> lookup (?s' ! length s) p = Some x"
    unfolding at using mask_lookup [OF m] mask_primitive by fastforce
  ultimately show ?thesis using r old by blast
qed

theorem maskPrivateData_masks_witness:
  "0 < length [JObj [(''user'', JObj [(''Email'', JStr ''a@b.c''), (''name'', JStr ''Ann'')]),
                     (''password'', JStr ''pw'')]]
   \<and> json_data (JObj [(''user'', JObj [(''Email'', JStr ''a@b.c''), (''name'', JStr ''Ann'')]),
                    (''password'', JStr ''pw'')])
   \<and> ''hasOwnProperty'' \<notin> set (deep_keys
         (JObj [(''user'', JObj [(''Email'', JStr ''a@b.c''), (''name'', JStr ''Ann'')]),
                (''password'', JStr ''pw'')]))
   \<and> (\<exists>masked s'. maskPrivateData
         [JObj [(''user'', JObj [(''Email'', JStr ''a@b.c''), (''name'', JStr ''Ann'')]),
                (''password'', JStr ''pw'')]] 0 = Inr (masked, s')
        \<and> masked \<noteq> 0
        \<and> s' ! 0 = JObj [(''user'', JObj [(''Email'', JStr ''a@b.c''), (''name'', JStr ''Ann'')]),
                         (''password'', JStr ''pw'')]
        \<and> lookup (s' ! masked) [Key ''user'', Key ''Email''] = Some MASKED
        \<and> lookup (s' ! masked) [Key ''user'', Key ''name''] = Some (JStr ''Ann''))"
proof -
  let ?d = "JObj [(''user'', JObj [(''Email'', JStr ''a@b.c''), (''name'', JStr ''Ann'')]),
                  (''password'', JStr ''pw'')]"
  have h0: "0 < length [?d]" by simp
  have h1: "json_data ([?d] ! 0)" by simp
  have h2: "''hasOwnProperty'' \<notin> set (deep_keys ([?d] ! 0))" by simp
  have s1: "\<not> is_sensitive ''user''" and s2: "\<not> is_sensitive ''name''"
    and s3: "is_sensitive ''Email''"
    by code_simp+
  from maskPrivateData_masks [OF h0 h1 h2] obtain masked s' where
    m: "maskPrivateData [?d] 0 = Inr (masked, s')" and n: "masked \<noteq> 0"
    and o: "\<forall>a < length [?d]. s' ! a = [?d] ! a"
    and a: "\<forall>p k x. clean_path p \<and> is_sensitive k \<and> lookup ([?d] ! 0) (p @ [Key k]) = Some x
           \<longrightarrow> lookup (s' ! masked) (p @ [Key k]) = Some MASKED"
    and b: "\<forall>p x. clean_path p \<and> lookup ([?d] ! 0) p = Some x \<and> \<not> is_object x
           \<longrightarrow> lookup (s' ! masked) p = Some x"
    by blast
  from o have o': "s' ! 0 = ?d" by simp
  have "clean_path [Key ''user'']" using s1 by (simp add: clean_path_def)
  moreover have "lookup ([?d] ! 0) ([Key ''user''] @ [Key ''Email'']) = Some (JStr ''a@b.c'')"
    by simp
  ultimately have "lookup (s' ! masked) ([Key ''user''] @ [Key ''Email'']) = Some MASKED"
    using a s3 by blast
  moreover have "clean_path [Key ''user'', Key ''name'']" using s1 s2 by (simp add: clean_path_def)
  then have "lookup (s' ! masked) [Key ''user'', Key ''name''] = Some (JStr ''Ann'')"
    using b [rule_format, of "[Key ''user'', Key ''name'']" "JStr ''Ann''"] by simp
  ultimately show ?thesis using h1 h2 m n o' by simp
qed

text \<open>
  As the claim was stated, every field with a non-sensitive key would keep its original
  value. In the value returned here the field \<open>account\<close> does not (the object under it
  is masked in turn), and the field \<open>hint\<close> under \<open>password\<close> is gone with the object
  that held it. The caller's record, at address 0, is as it was.
\<close>

theorem maskPrivateData_counterexample:
  "\<not> is_sensitive ''account'' \<and> \<not> is_sensitive ''hint''
   \<and> maskPrivateData
        [JObj [(''account'', JObj [(''email'', JStr ''a@b.c'')]),
               (''password'', JObj [(''hint'', JStr ''pet'')])]] 0
      = Inr (1,
          [JObj [(''account'', JObj [(''email'', JStr ''a@b.c'')]),
                 (''password'', JObj [(''hint'', JStr ''pet'')])],
           JObj [(''account'', JObj [(''email'', JStr ''[MASKED]'')]),
                 (''password'', JStr ''[MASKED]'')]])"
  by code_simp

section \<open>Properties of the Next.js server component\<close>

lemma str_includes_sublist: "str_includes s t = sublist t s"
  by (induction s) (auto simp add: sublist_Cons_right)

lemma hasConsent_False_iff:
  "(hasConsent h = False) = (\<exists>c. h = Some c \<and> \<not> str_includes c ''consent=true'')"
  by (cases h) (simp_all add: hasConsent_def)

lemma SajkoTracker_hasUserConsent:
  "hasUserConsent (script_config (SajkoTracker props h env)) =
     override (Some (hasConsent (cookie h))) (custom_consent props)"
  by (simp add: SajkoTracker_def spread_def custom_consent_def empty_config_def override_def
      split: option.splits)

text \<open>
  C8, as amended. \<open>SajkoTracker\<close> derives consent from the cookie header: false only when
  a cookie header is there and does not contain \<open>consent=true\<close>, true when the request has
  no cookie header. That value is the \<open>hasUserConsent\<close> of the script's configuration
  unless the \<open>config\<close> prop brings its own \<open>hasUserConsent\<close>, which then wins.
\<close>

theorem SajkoTracker_consent:
  "(custom_consent props = None \<longrightarrow>
      ((hasUserConsent (script_config (SajkoTracker props h env)) = Some False) =
         (\<exists>c. cookie h = Some c \<and> \<not> str_includes c ''consent=true''))
      \<and> (cookie h = None \<longrightarrow>
           hasUserConsent (script_config (SajkoTracker props h env)) = Some True))
   \<and> (\<forall>b. custom_consent props = Some b \<longrightarrow>
         hasUserConsent (script_config (SajkoTracker props h env)) = Some b)"
  using hasConsent_False_iff [of "cookie h"]
  by (auto simp add: SajkoTracker_hasUserConsent override_def hasConsent_def)

theorem SajkoTracker_consent_witness:
  "custom_consent \<lparr>props_websiteId = ''site-1'', props_apiEndpoint = None,
       props_debug = None, props_config = None\<rparr> = None
   \<and> hasUserConsent (script_config (SajkoTracker
        \<lparr>props_websiteId = ''site-1'', props_apiEndpoint = None,
         props_debug = None, props_config = None\<rparr>
        \<lparr>user_agent = None, cookie = Some ''theme=dark''\<rparr>
        \<lparr>NEXT_PUBLIC_SAJKO_API = None, NODE_ENV = None\<rparr>)) = Some False"
proof -
  let ?p = "\<lparr>props_websiteId = ''site-1'', props_apiEndpoint = None,
       props_debug = None, props_config = None\<rparr>"
  let ?h = "\<lparr>user_agent = None, cookie = Some ''theme=dark''\<rparr>"
  let ?e = "\<lparr>NEXT_PUBLIC_SAJKO_API = None, NODE_ENV = None\<rparr>"
  have c: "custom_consent ?p = None" by (simp add: custom_consent_def)
  have "\<exists>c. cookie ?h = Some c \<and> \<not> str_includes c ''consent=true''" by simp
  with c SajkoTracker_consent [of ?p ?h ?e] show ?thesis by blast
qed

text \<open>
  As the claim was stated, a request without a cookie header would always be configured
  as consented. With \<open>config = { hasUserConsent: false }\<close> it is not.
\<close>

theorem SajkoTracker_consent_counterexample:
  "cookie \<lparr>user_agent = None, cookie = None\<rparr> = None
   \<and> hasUserConsent (script_config (SajkoTracker
        \<lparr>props_websiteId = ''site-1'', props_apiEndpoint = None, props_debug = None,
         props_config = Some (empty_config\<lparr>hasUserConsent := Some False\<rparr>)\<rparr>
        \<lparr>user_agent = None, cookie = None\<rparr>
        \<lparr>NEXT_PUBLIC_SAJKO_API = None, NODE_ENV = None\<rparr>)) = Some False"
  by (simp add: SajkoTracker_def spread_def override_def empty_config_def)

lemma example_loaded_page_fields:
  "window_SajkoReplay example_loaded_page = Some example_replay"
  "loaderInstance example_loaded_page = Some 0"
  "already_initialized example_loaded_page = Some example_replay"
  "heap example_loaded_page =
     [(new_SajkoLoader example_config no_options)
        \<lparr>scriptPromise := Some Fulfilled, isLoaded := True\<rparr>]"
  "document_scripts example_loaded_page =
     [script_tag (new_SajkoLoader example_config no_options)]"
  "effects example_loaded_page =
     [LoadScript 1, ScriptTimer (Some 30000),
      AppendScript (script_tag (new_SajkoLoader example_config no_options))]"
  by code_simp+

section \<open>Properties of the wrapper\<close>

text \<open>
  C9, as amended. With no engine instance, \<open>track\<close>, \<open>identify\<close>, \<open>flush\<close> and \<open>stop\<close>
  return without throwing and leave the page as it is, \<open>getMetrics\<close>, \<open>getSessionId\<close>
  and \<open>getVisitorId\<close> return \<open>null\<close>, and \<open>isRecording\<close> returns \<open>false\<close>.
  \<open>updateConfig\<close> looks at the loader instead: with no loader it returns without
  throwing and leaves the page as it is.
\<close>

theorem wrapper_without_instance:
  "(sajkoInstance w = None \<longrightarrow>
      track event properties w = (Returned (), w)
      \<and> identify userId traits w = (Returned (), w)
      \<and> flush w = (Returned (), w)
      \<and> stop w = (Returned (), w)
      \<and> getMetrics w = None
      \<and> getSessionId w = None
      \<and> getVisitorId w = None
      \<and> isRecording w = False)
   \<and> (loaderInstance w = None \<longrightarrow> updateConfig partial w = (Returned (), w))"
  by (simp add: track_def identify_def flush_def stop_def getMetrics_def getSessionId_def
      getVisitorId_def isRecording_def updateConfig_def)

theorem wrapper_without_instance_witness:
  "sajkoInstance empty_page = None \<and> loaderInstance empty_page = None
   \<and> track ''button_click'' None empty_page = (Returned (), empty_page)
   \<and> stop empty_page = (Returned (), empty_page)
   \<and> getMetrics empty_page = None
   \<and> isRecording empty_page = False
   \<and> updateConfig (empty_config\<lparr>debug := Some True\<rparr>) empty_page = (Returned (), empty_page)"
proof -
  have "sajkoInstance empty_page = None" and "loaderInstance empty_page = None"
    by (simp_all add: empty_page_def)
  with wrapper_without_instance [of empty_page "''button_click''" None _ _
      "empty_config\<lparr>debug := Some True\<rparr>"]
  show ?thesis by simp
qed

text \<open>
  As the claim was stated, \<open>updateConfig\<close> would change nothing as long as there is no
  engine instance. After \<open>init\<close> was called and before the engine is there, the loader
  exists, and \<open>updateConfig\<close> writes to its configuration and to \<open>window.sajkoConfig\<close>.
\<close>

theorem updateConfig_counterexample:
  "sajkoInstance (snd (init example_config None empty_page)) = None
   \<and> window_sajkoConfig (snd (init example_config None empty_page)) = Some example_config
   \<and> window_sajkoConfig
        (snd (updateConfig (empty_config\<lparr>debug := Some True\<rparr>)
                (snd (init example_config None empty_page))))
      = Some (example_config\<lparr>debug := Some True\<rparr>)"
  by code_simp

lemma init_not_websiteId:
  "fst (init cfg opts w) = Threw e \<Longrightarrow> \<not> truthy_str (websiteId cfg)"
  by (auto simp add: init_def split_def Let_def split: option.splits if_splits load_result.splits prod.splits)

text \<open>
  C6, as amended. For a configuration whose \<open>websiteId\<close> is absent or empty, \<open>init\<close>
  throws and leaves the page as it is (no loader is made, no script load is started),
  unless the wrapper is initialized already: then it returns the existing instance
  without looking at the configuration. For a configuration with a non-empty
  \<open>websiteId\<close> this error is not raised.
\<close>

theorem init_websiteId:
  "(\<not> truthy_str (websiteId cfg) \<longrightarrow>
      init cfg opts w =
        (case already_initialized w of
           Some inst \<Rightarrow> (Returned inst, w)
         | None \<Rightarrow> (Threw WebsiteIdRequired, w)))
   \<and> (truthy_str (websiteId cfg) \<longrightarrow> fst (init cfg opts w) \<noteq> Threw WebsiteIdRequired)"
  using init_not_websiteId [of cfg opts w WebsiteIdRequired]
  by (auto simp add: init_def split: option.splits)

theorem init_websiteId_witness:
  "\<not> truthy_str (websiteId empty_config)
   \<and> \<not> truthy_str (websiteId (empty_config\<lparr>websiteId := Some []\<rparr>))
   \<and> truthy_str (websiteId example_config)
   \<and> init empty_config None empty_page = (Threw WebsiteIdRequired, empty_page)
   \<and> init (empty_config\<lparr>websiteId := Some []\<rparr>) None empty_page
       = (Threw WebsiteIdRequired, empty_page)
   \<and> fst (init example_config None empty_page) \<noteq> Threw WebsiteIdRequired"
proof -
  have a: "\<not> truthy_str (websiteId empty_config)"
    and b: "\<not> truthy_str (websiteId (empty_config\<lparr>websiteId := Some []\<rparr>))"
    and c: "truthy_str (websiteId example_config)"
    by (simp_all add: truthy_str_def empty_config_def example_config_def)
  have d: "already_initialized empty_page = None"
    by (simp add: already_initialized_def empty_page_def)
  from a b c d init_websiteId [of empty_config None empty_page]
    init_websiteId [of "empty_config\<lparr>websiteId := Some []\<rparr>" None empty_page]
    init_websiteId [of example_config None empty_page]
  show ?thesis by simp
qed

text \<open>
  As the claim was stated, \<open>init\<close> would throw for every configuration without a
  \<open>websiteId\<close>. On a page that is initialized it returns the existing instance.
\<close>

theorem init_websiteId_counterexample:
  "websiteId empty_config = None
   \<and> init empty_config None example_loaded_page = (Returned example_replay, example_loaded_page)"
  by (simp add: init_def example_loaded_page_fields empty_config_def)

lemma new_loader_fields:
  "scriptPromise (new_SajkoLoader cfg opts) = None"
  "isLoaded (new_SajkoLoader cfg opts) = False"
  "config (new_SajkoLoader cfg opts) = cfg"
  by (simp_all add: new_SajkoLoader_def)

lemma init_fresh:
  assumes "fresh_page w" and "truthy_str (websiteId cfg)"
  shows "init cfg opts w =
     (let l = new_SajkoLoader cfg (case opts of None \<Rightarrow> no_options | Some x \<Rightarrow> x);
          w1 = w\<lparr>heap := [l], SajkoLoader_instance := Some 0, loaderInstance := Some 0\<rparr>
      in (Suspended, (loadWithRetry 0 1 w1)\<lparr>suspended := [AwaitLoad 0]\<rparr>))"
proof -
  from assms(1) have f: "heap w = []" "SajkoLoader_instance w = None" "sajkoInstance w = None"
    "loaderInstance w = None" "suspended w = []" "effects w = []"
    by (simp_all add: fresh_page_def)
  have s: "suspended (loadWithRetry a k w') = suspended w'" for a k w'
    by (simp add: loadWithRetry_def loadScript_def Let_def set_promise_def assign_def emit_def
        split: query_result.splits)
  show ?thesis
    using f assms(2)
    by (simp add: init_def already_initialized_def getInstance_def Let_def load_def deref_def
        new_loader_fields s)
qed




section \<open>Properties of \<open>unload\<close>\<close>



lemma stop_if_recording:
  "(case window_SajkoReplay w of
      None \<Rightarrow> w
    | Some replay \<Rightarrow> if replay_isRecording replay then emit [EngineStop] w else w)
   = emit (if recording w then [EngineStop] else []) w"
  by (simp add: recording_def emit_def split: option.splits)

lemma emit_fields:
  "effects (emit es w) = effects w @ es"
  "heap (emit es w) = heap w"
  "document_scripts (emit es w) = document_scripts w"
  "document_querySelector (emit es w) = document_querySelector w"
  "suspended (emit es w) = suspended w"
  by (simp_all add: emit_def)


text \<open>When the lookup throws, \<open>unload\<close> throws after the engine was stopped, and nothing
  is cleared.\<close>

lemma unload_lookup_throws:
  assumes "loaderInstance w = Some a"
    and "querySelector_script (getScriptUrl (heap w ! a)) w = InvalidSelector"
  shows "unload w =
     (Threw SelectorSyntaxError, emit (if recording w then [EngineStop] else []) w)"
proof -
  let ?w1 = "emit (if recording w then [EngineStop] else []) w"
  have u: "getScriptUrl (deref ?w1 a) = getScriptUrl (heap w ! a)"
    by (simp add: deref_def emit_fields)
  from assms(2) have "querySelector_script (getScriptUrl (heap w ! a)) ?w1 = InvalidSelector"
    by (simp add: querySelector_script_def emit_fields)
  then have "loader_unload a w = (Threw SelectorSyntaxError, ?w1)"
    unfolding loader_unload_def stop_if_recording Let_def u by simp
  with assms(1) show ?thesis by (simp add: unload_def)
qed




section \<open>Properties of loading\<close>

lemma loadWithRetry_view:
  assumes "heap w = [l]"
  shows "view (loadWithRetry 0 k w) =
     (case querySelector_script (getScriptUrl l) w of
        NoMatch \<Rightarrow>
          ([l\<lparr>scriptPromise := Some (Pending (AwaitScript k))\<rparr>],
           effects w @ [LoadScript k, ScriptTimer (timeout (options l)),
                        AppendScript (script_tag l)],
           document_scripts w @ [script_tag l],
           SajkoLoader_instance w)
      | Selected i \<Rightarrow>
          ([l\<lparr>scriptPromise := Some (Pending (AwaitResolved k))\<rparr>],
           effects w @ [LoadScript k],
           document_scripts w,
           SajkoLoader_instance w)
      | InvalidSelector \<Rightarrow>
          ([l\<lparr>scriptPromise := Some (Pending (AwaitRejected k SelectorSyntaxError))\<rparr>],
           effects w @ [LoadScript k],
           document_scripts w,
           SajkoLoader_instance w))"
  using assms
  by (simp add: view_def loadWithRetry_def loadScript_def Let_def deref_def emit_def
      querySelector_script_def set_promise_def assign_def split: query_result.splits)

lemma loadWithRetry_loaded_view:
  assumes "heap w = [l]"
  shows "view (loadWithRetry_loaded 0 w) =
     ([l\<lparr>isLoaded := True, scriptPromise := Some Fulfilled\<rparr>], effects w,
      document_scripts w, SajkoLoader_instance w)"
  using assms by (simp add: view_def loadWithRetry_loaded_def deref_def assign_def)

lemma loadWithRetry_catch_view:
  assumes "heap w = [l]"
  shows "view (loadWithRetry_catch 0 k e w) =
     (if less_number k (retryAttempts (options l))
      then ([l\<lparr>scriptPromise := Some (Pending (AwaitDelay k))\<rparr>],
            effects w @ [Delay (retryDelay (options l))],
            document_scripts w, SajkoLoader_instance w)
      else ([l\<lparr>scriptPromise := Some (Rejected (LoadFailed k e))\<rparr>], effects w,
            document_scripts w, SajkoLoader_instance w))"
  using assms
  by (simp add: view_def loadWithRetry_catch_def Let_def deref_def emit_def set_promise_def
      assign_def)

lemma other_fields_loader_ops:
  "loaderInstance (loadWithRetry a k w) = loaderInstance w"
  "loaderInstance (loadWithRetry_loaded a w) = loaderInstance w"
  "loaderInstance (loadWithRetry_catch a k e w) = loaderInstance w"
  "suspended (loadWithRetry a k w) = suspended w"
  "sajkoInstance (loadWithRetry a k w) = sajkoInstance w"
  "window_SajkoReplay (loadWithRetry a k w) = window_SajkoReplay w"
  "suspended (loadWithRetry_loaded a w) = suspended w"
  "sajkoInstance (loadWithRetry_loaded a w) = sajkoInstance w"
  "window_SajkoReplay (loadWithRetry_loaded a w) = window_SajkoReplay w"
  "suspended (loadWithRetry_catch a k e w) = suspended w"
  "sajkoInstance (loadWithRetry_catch a k e w) = sajkoInstance w"
  "window_SajkoReplay (loadWithRetry_catch a k e w) = window_SajkoReplay w"
  by (simp_all add: loadWithRetry_def loadScript_def loadWithRetry_loaded_def
      loadWithRetry_catch_def Let_def emit_def set_promise_def assign_def
      split: query_result.splits)

lemma loader_inv_view:
  "loader_inv w =
     (fresh_page w \<or> (binv (view w) \<and> (loaderInstance w = None \<or> loaderInstance w = Some 0)))"
  by (auto simp add: loader_inv_def view_def fetches_def attempts_def retry_effects_def)

lemma attempts_retry_trace: "length (filter is_attempt (retry_trace d k)) = k"
  by (induction d k rule: retry_trace.induct) simp_all

lemma retry_trace_Suc:
  "1 \<le> k \<Longrightarrow> retry_trace d k @ [Delay d, LoadScript (Suc k)] = retry_trace d (Suc k)"
  by (cases k) simp_all

lemma url_unchanged [simp]:
  "getScriptUrl (l\<lparr>scriptPromise := p\<rparr>) = getScriptUrl l"
  "getScriptUrl (l\<lparr>isLoaded := b\<rparr>) = getScriptUrl l"
  "script_tag (l\<lparr>scriptPromise := p\<rparr>) = script_tag l"
  by (simp_all add: getScriptUrl_def script_tag_def)

lemma src_script_tag [simp]: "src (script_tag l) = getScriptUrl l"
  by (simp add: script_tag_def)

text \<open>The loader events keep the invariant.\<close>

lemma binv_heap:
  assumes "binv (view w)"
  obtains l where "heap w = [l]"
    and "binv ([l], effects w, document_scripts w, SajkoLoader_instance w)"
proof -
  from assms obtain l where h: "heap w = [l]"
    by (cases "heap w") (auto simp add: view_def)
  with assms have "binv ([l], effects w, document_scripts w, SajkoLoader_instance w)"
    by (simp add: view_def)
  with h that show thesis by blast
qed

lemma binv_onload:
  assumes "binv (view w)"
    and "phase_of w 0 = Some (AwaitScript k) \<or> phase_of w 0 = Some (AwaitResolved k)"
  shows "binv (view (loadWithRetry_loaded 0 w))"
proof -
  from assms(1) obtain l where h: "heap w = [l]"
    and b: "binv ([l], effects w, document_scripts w, SajkoLoader_instance w)"
    by (rule binv_heap)
  from assms(2) h have p: "scriptPromise l = Some (Pending (AwaitScript k))
      \<or> scriptPromise l = Some (Pending (AwaitResolved k))"
    by (auto simp add: phase_of_def deref_def split: option.splits promise.splits)
  show ?thesis
    unfolding loadWithRetry_loaded_view [OF h]
    using b p by (auto simp add: attempts_retry_trace Let_def simp del: filter_filter)
qed

lemma binv_catch:
  assumes "binv (view w)"
    and "phase_of w 0 = Some (AwaitScript k) \<or> phase_of w 0 = Some (AwaitRejected k e')"
  shows "binv (view (loadWithRetry_catch 0 k e w))"
proof -
  from assms(1) obtain l where h: "heap w = [l]"
    and b: "binv ([l], effects w, document_scripts w, SajkoLoader_instance w)"
    by (rule binv_heap)
  from assms(2) h have p: "scriptPromise l = Some (Pending (AwaitScript k))
      \<or> scriptPromise l = Some (Pending (AwaitRejected k e'))"
    by (auto simp add: phase_of_def deref_def split: option.splits promise.splits)
  show ?thesis
    unfolding loadWithRetry_catch_view [OF h]
    using b p
    by (auto simp add: attempts_retry_trace attempt_reached_def Let_def simp del: filter_filter)
qed

lemma binv_delay:
  assumes "binv (view w)" and "phase_of w 0 = Some (AwaitDelay k)"
  shows "binv (view (loadWithRetry 0 (k + 1) w))"
proof -
  from assms(1) obtain l where h: "heap w = [l]"
    and b: "binv ([l], effects w, document_scripts w, SajkoLoader_instance w)"
    by (rule binv_heap)
  from assms(2) h have p: "scriptPromise l = Some (Pending (AwaitDelay k))"
    by (auto simp add: phase_of_def deref_def split: option.splits promise.splits)
  show ?thesis
    unfolding loadWithRetry_view [OF h]
    using b p
    by (cases "querySelector_script (getScriptUrl l) w")
       (auto simp add: retry_trace_Suc attempt_reached_def)
qed

lemma view_updates [simp]:
  "view (w\<lparr>suspended := s\<rparr>) = view w"
  "view (w\<lparr>sajkoInstance := i\<rparr>) = view w"
  "view (w\<lparr>window_SajkoReplay := r\<rparr>) = view w"
  "view (w\<lparr>loaderInstance := a\<rparr>) = view w"
  by (simp_all add: view_def)

lemma view_drop_task [simp]: "view (drop_task i w) = view w"
  by (simp add: drop_task_def)

lemma view_init_resume: "view (snd (init_resume i w)) = view w"
  by (simp add: init_resume_def split: init_task.splits option.splits promise.splits)

lemma view_init_give_up: "view (snd (init_give_up i w)) = view w"
  by (simp add: init_give_up_def split: init_task.splits option.splits promise.splits)

lemma fresh_init_resume: "fresh_page w \<Longrightarrow> snd (init_resume i w) = w"
  by (simp add: init_resume_def fresh_page_def)

lemma fresh_init_give_up: "fresh_page w \<Longrightarrow> snd (init_give_up i w) = w"
  by (simp add: init_give_up_def fresh_page_def)

text \<open>\<open>init\<close> on a page that has the loader: nothing of the loader changes.\<close>

lemma init_joins:
  assumes "binv (view w)"
  shows "init cfg opts w =
     (case already_initialized w of
        Some inst \<Rightarrow> (Returned inst, w)
      | None \<Rightarrow>
          if \<not> truthy_str (websiteId cfg) then (Threw WebsiteIdRequired, w)
          else (Suspended,
                w\<lparr>loaderInstance := Some 0, suspended := suspended w @ [AwaitLoad 0]\<rparr>))"
proof -
  from assms have i: "SajkoLoader_instance w = Some 0"
    and p: "scriptPromise (heap w ! 0) \<noteq> None"
    by (simp_all add: view_def)
  show ?thesis
    using i p
    by (auto simp add: init_def getInstance_def load_def deref_def Let_def
        split: option.splits)
qed

text \<open>A direct \<open>getInstance(...).load()\<close> on a page that has the loader changes nothing.\<close>

lemma load_call_joins:
  assumes "binv (view w)"
  shows "step (LoadCall cfg opts) w = w"
proof -
  from assms have i: "SajkoLoader_instance w = Some 0"
    and p: "scriptPromise (heap w ! 0) \<noteq> None"
    by (simp_all add: view_def)
  show ?thesis
    using i p by (auto simp add: getInstance_def load_def deref_def Let_def split: option.splits)
qed

lemma binv_first_load:
  assumes "heap w = [new_SajkoLoader cfg opts]" and "effects w = []"
    and "SajkoLoader_instance w = Some 0"
  shows "binv (view (loadWithRetry 0 1 w))"
  unfolding loadWithRetry_view [OF assms(1)]
  using assms(2,3)
  by (cases "querySelector_script (getScriptUrl (new_SajkoLoader cfg opts)) w")
     (auto simp add: new_loader_fields attempt_reached_def)

lemma binv_load_call_fresh:
  assumes "fresh_page w"
  shows "binv (view (step (LoadCall cfg opts) w))"
proof -
  let ?l = "new_SajkoLoader cfg (case opts of None \<Rightarrow> no_options | Some x \<Rightarrow> x)"
  let ?w1 = "w\<lparr>heap := heap w @ [?l], SajkoLoader_instance := Some (length (heap w))\<rparr>"
  from assms have f: "heap w = []" "SajkoLoader_instance w = None" "effects w = []"
    by (simp_all add: fresh_page_def)
  have h: "heap ?w1 = [?l]" using f by simp
  from f have e: "effects ?w1 = []" and i: "SajkoLoader_instance ?w1 = Some 0" by simp_all
  have v: "step (LoadCall cfg opts) w = loadWithRetry 0 1 ?w1"
    using f by (simp add: getInstance_def load_def deref_def Let_def new_loader_fields)
  show ?thesis
    unfolding v using h e i by (rule binv_first_load)
qed

lemma view_init_joined:
  assumes "binv (view w)"
  shows "view (snd (init cfg opts w)) = view w"
  by (simp add: init_joins [OF assms] split: option.splits)

lemma binv_init_fresh:
  assumes "fresh_page w" and "truthy_str (websiteId cfg)"
  shows "binv (view (snd (init cfg opts w)))"
proof -
  let ?l = "new_SajkoLoader cfg (case opts of None \<Rightarrow> no_options | Some x \<Rightarrow> x)"
  let ?w1 = "w\<lparr>heap := [?l], SajkoLoader_instance := Some 0, loaderInstance := Some 0\<rparr>"
  have h: "heap ?w1 = [?l]" by simp
  from assms(1) have e: "effects ?w1 = []" by (simp add: fresh_page_def)
  have i: "SajkoLoader_instance ?w1 = Some 0" by simp
  have v: "view (snd (init cfg opts w)) = view (loadWithRetry 0 1 ?w1)"
    by (simp add: init_fresh [OF assms] Let_def)
  show ?thesis
    unfolding v using h e i by (rule binv_first_load)
qed

lemma fresh_init_bad:
  assumes "fresh_page w" and "\<not> truthy_str (websiteId cfg)"
  shows "snd (init cfg opts w) = w"
  using assms by (simp add: init_def already_initialized_def fresh_page_def)

lemma core_inv_step:
  assumes "fresh_page w \<or> binv (view w)"
  shows "fresh_page (step ev w) \<or> binv (view (step ev w))"
proof (cases "fresh_page w")
  case True
  then have n: "SajkoLoader_instance w = None" by (simp add: fresh_page_def)
  show ?thesis
  proof (cases ev)
    case (Init cfg opts)
    show ?thesis
    proof (cases "truthy_str (websiteId cfg)")
      case t: True
      from binv_init_fresh [OF True t] Init show ?thesis by simp
    next
      case f: False
      from fresh_init_bad [OF True f] Init True show ?thesis by simp
    qed
  next
    case (LoadCall cfg opts)
    with binv_load_call_fresh [OF True] show ?thesis by simp
  next
    case (EngineDefines r)
    with True show ?thesis by (simp add: fresh_page_def)
  next
    case (InitResumes i)
    with True show ?thesis by (simp add: fresh_init_resume)
  next
    case (InitGivesUp i)
    with True show ?thesis by (simp add: fresh_init_give_up)
  qed (use n True in simp_all)
next
  case False
  with assms have b: "binv (view w)" by simp
  then have s: "SajkoLoader_instance w = Some 0" by (simp add: view_def)
  have keep: "view w' = view w \<Longrightarrow> binv (view w')" for w'
    using b by simp
  have "binv (view (step ev w))"
  proof (cases ev)
    case (Init cfg opts)
    with view_init_joined [OF b] keep show ?thesis by simp
  next
    case (LoadCall cfg opts)
    with load_call_joins [OF b] b show ?thesis by simp
  next
    case ScriptOnload
    show ?thesis
    proof (cases "phase_of w 0")
      case None
      with ScriptOnload s b show ?thesis by simp
    next
      case (Some ph)
      with ScriptOnload s b binv_onload [OF b] show ?thesis by (cases ph) auto
    qed
  next
    case ScriptOnerror
    show ?thesis
    proof (cases "phase_of w 0")
      case None
      with ScriptOnerror s b show ?thesis by simp
    next
      case (Some ph)
      with ScriptOnerror s b binv_catch [OF b] show ?thesis by (cases ph) auto
    qed
  next
    case ScriptTimeout
    show ?thesis
    proof (cases "phase_of w 0")
      case None
      with ScriptTimeout s b show ?thesis by simp
    next
      case (Some ph)
      with ScriptTimeout s b binv_catch [OF b] show ?thesis by (cases ph) auto
    qed
  next
    case Continue
    show ?thesis
    proof (cases "phase_of w 0")
      case None
      with Continue s b show ?thesis by simp
    next
      case (Some ph)
      with Continue s b binv_onload [OF b] binv_catch [OF b] show ?thesis by (cases ph) auto
    qed
  next
    case DelayElapsed
    show ?thesis
    proof (cases "phase_of w 0")
      case None
      with DelayElapsed s b show ?thesis by simp
    next
      case (Some ph)
      with DelayElapsed s b binv_delay [OF b] show ?thesis by (cases ph) auto
    qed
  next
    case (EngineDefines r)
    with keep show ?thesis by simp
  next
    case (InitResumes i)
    with keep view_init_resume show ?thesis by simp
  next
    case (InitGivesUp i)
    with keep view_init_give_up show ?thesis by simp
  qed
  then show ?thesis ..
qed

text \<open>The wrapper's reference to the loader is set by \<open>init\<close> only, and to the one loader.\<close>

lemma loaderInstance_step:
  assumes "fresh_page w \<or> binv (view w)"
  shows "loaderInstance (step ev w) = loaderInstance w \<or> loaderInstance (step ev w) = Some 0"
proof (cases ev)
  case (Init cfg opts)
  show ?thesis
  proof (cases "fresh_page w")
    case True
    show ?thesis
    proof (cases "truthy_str (websiteId cfg)")
      case t: True
      from init_fresh [OF True t, of opts] Init show ?thesis
        by (simp add: Let_def other_fields_loader_ops)
    next
      case f: False
      from fresh_init_bad [OF True f] Init show ?thesis by simp
    qed
  next
    case False
    with assms have b: "binv (view w)" by simp
    from init_joins [OF b, of cfg opts] Init show ?thesis
      by (simp split: option.splits if_splits)
  qed
next
  case (LoadCall cfg opts)
  then show ?thesis
    by (simp add: getInstance_def load_def Let_def other_fields_loader_ops
        split: option.splits prod.splits)
next
  case ScriptOnload
  then show ?thesis
    by (simp add: other_fields_loader_ops split: option.splits load_phase.splits)
next
  case ScriptOnerror
  then show ?thesis
    by (simp add: other_fields_loader_ops split: option.splits load_phase.splits)
next
  case ScriptTimeout
  then show ?thesis
    by (simp add: other_fields_loader_ops split: option.splits load_phase.splits)
next
  case Continue
  then show ?thesis
    by (simp add: other_fields_loader_ops split: option.splits load_phase.splits)
next
  case DelayElapsed
  then show ?thesis
    by (simp add: other_fields_loader_ops split: option.splits load_phase.splits)
next
  case (EngineDefines r)
  then show ?thesis by simp
next
  case (InitResumes i)
  then show ?thesis
    by (simp add: init_resume_def drop_task_def
        split: init_task.splits option.splits promise.splits)
next
  case (InitGivesUp i)
  then show ?thesis
    by (simp add: init_give_up_def drop_task_def
        split: init_task.splits option.splits promise.splits)
qed

lemma loader_inv_step: "loader_inv w \<Longrightarrow> loader_inv (step ev w)"
proof -
  assume inv: "loader_inv w"
  then have c: "fresh_page w \<or> binv (view w)"
    and li: "loaderInstance w = None \<or> loaderInstance w = Some 0"
    by (auto simp add: loader_inv_view fresh_page_def)
  from core_inv_step [OF c, of ev] loaderInstance_step [OF c, of ev] li
  show ?thesis by (auto simp add: loader_inv_view)
qed

lemma loader_inv_run: "loader_inv w \<Longrightarrow> loader_inv (run evs w)"
  unfolding run_def by (induction evs arbitrary: w) (simp_all add: loader_inv_step)

lemma attempts_retry_effects:
  "length (filter is_attempt (filter is_retry_effect es)) = length (filter is_attempt es)"
proof -
  have "is_retry_effect x \<and> is_attempt x \<longleftrightarrow> is_attempt x" for x by (cases x) simp_all
  then show ?thesis by simp
qed

lemma promise_view: "scriptPromise (heap w ! 0) = scriptPromise (fst (view w) ! 0)"
  by (simp add: view_def)

lemma less_number_mono: "less_number k n \<Longrightarrow> j \<le> k \<Longrightarrow> less_number j n"
proof (cases n)
  case None
  then show "less_number k n \<Longrightarrow> j \<le> k \<Longrightarrow> less_number j n" by simp
next
  case (Some x)
  assume "less_number k n" and "j \<le> k"
  with Some show "less_number j n"
  proof (cases x)
    case (Num q)
    assume "less_number k n" and "j \<le> k"
    with Some Num have "rat_of_nat k < q" and "rat_of_nat j \<le> rat_of_nat k" by simp_all
    then have "rat_of_nat j < q" by simp
    with Some Num show ?thesis by simp
  qed simp_all
qed

text \<open>What the invariant says about the attempts.\<close>

lemma binv_attempts:
  assumes "binv (view w)"
  shows "attempt_reached (attempts w) (retryAttempts (options (heap w ! 0)))
     \<and> fetches w \<le> attempts w
     \<and> (retry_effects w = retry_trace (retryDelay (options (heap w ! 0))) (attempts w)
         \<or> retry_effects w =
              retry_trace (retryDelay (options (heap w ! 0))) (attempts w)
                @ [Delay (retryDelay (options (heap w ! 0)))])"
proof -
  from assms obtain l where h: "heap w = [l]"
    and b: "binv ([l], effects w, document_scripts w, SajkoLoader_instance w)"
    by (rule binv_heap)
  let ?d = "retryDelay (options l)"
  let ?n = "retryAttempts (options l)"
  let ?es = "filter is_retry_effect (effects w)"
  have a: "attempts w = length (filter is_attempt ?es)"
    by (simp add: attempts_def attempts_retry_effects del: filter_filter)
  from b have s: "retry_shape ?d ?n ?es (scriptPromise l)" and nn: "scriptPromise l \<noteq> None"
    and fa: "fetches w \<le> attempts w"
    by (simp_all add: fetches_def attempts_def)
  from nn obtain p where p: "scriptPromise l = Some p" by auto
  have "attempt_reached (length (filter is_attempt ?es)) ?n
      \<and> (?es = retry_trace ?d (length (filter is_attempt ?es))
          \<or> ?es = retry_trace ?d (length (filter is_attempt ?es)) @ [Delay ?d])"
  proof (cases p)
    case (Pending ph)
    show ?thesis
    proof (cases ph)
      case (AwaitDelay k)
      with s p Pending have e: "?es = retry_trace ?d k @ [Delay ?d]" and k: "1 \<le> k"
        and l: "less_number k ?n" by simp_all
      from less_number_mono [OF l, of "k - 1"] k have "attempt_reached k ?n"
        by (simp add: attempt_reached_def)
      with e show ?thesis by (simp add: attempts_retry_trace del: filter_filter)
    qed (use s p Pending in \<open>auto simp add: attempts_retry_trace simp del: filter_filter\<close>)
  next
    case Fulfilled
    with s p show ?thesis by (simp add: Let_def del: filter_filter)
  next
    case (Rejected e)
    with s p show ?thesis by (simp add: Let_def del: filter_filter)
  qed
  with a h fa show ?thesis by (simp add: retry_effects_def del: filter_filter)
qed

text \<open>The attempt count against a finite \<open>retryAttempts\<close>.\<close>

lemma less_number_ceiling:
  "less_number k (Some (Num q)) \<Longrightarrow> int k < \<lceil>q\<rceil>"
  by (simp add: less_ceiling_iff)

lemma attempt_reached_ceiling:
  assumes "attempt_reached k (Some (Num q))" and "1 \<le> q"
  shows "int k \<le> \<lceil>q\<rceil>"
proof (cases "k = 1")
  case True
  from assms(2) have "1 \<le> \<lceil>q\<rceil>" by (simp add: le_ceiling_iff)
  with True show ?thesis by simp
next
  case False
  with assms(1) have l: "less_number (k - 1) (Some (Num q))" and k: "1 \<le> k"
    unfolding attempt_reached_def by blast+
  from less_number_ceiling [OF l] have "int (k - 1) < \<lceil>q\<rceil>" .
  with k show ?thesis by linarith
qed

text \<open>A rejected promise stays, and nothing more is attempted.\<close>

lemma rejected_step:
  assumes "binv (view w)" and "scriptPromise (heap w ! 0) = Some (Rejected e)"
  shows "view (step ev w) = view w"
proof -
  from assms(1) have s: "SajkoLoader_instance w = Some 0" by (simp add: view_def)
  from assms(2) have ph: "phase_of w 0 = None" by (simp add: phase_of_def deref_def)
  show ?thesis
  proof (cases ev)
    case (Init cfg opts)
    with view_init_joined [OF assms(1)] show ?thesis by simp
  next
    case (LoadCall cfg opts)
    with load_call_joins [OF assms(1)] show ?thesis by simp
  next
    case (InitResumes i)
    with view_init_resume show ?thesis by simp
  next
    case (InitGivesUp i)
    with view_init_give_up show ?thesis by simp
  qed (use s ph in simp_all)
qed

lemma rejected_run:
  assumes "binv (view w)" and "scriptPromise (heap w ! 0) = Some (Rejected e)"
  shows "view (run evs w) = view w"
  using assms
proof (induction evs arbitrary: w)
  case Nil
  then show ?case by (simp add: run_def)
next
  case (Cons ev evs)
  from rejected_step [OF Cons.prems] have v: "view (step ev w) = view w" .
  with Cons.prems have "binv (view (step ev w))"
    and "scriptPromise (heap (step ev w) ! 0) = Some (Rejected e)"
    by (simp_all add: promise_view)
  from Cons.IH [OF this] v show ?case by (simp add: run_def)
qed

text \<open>Every change of the promise brings the bound down.\<close>

lemma heap_ops:
  assumes "heap w = [l]"
  shows "heap (loadWithRetry_loaded 0 w) = [l\<lparr>isLoaded := True, scriptPromise := Some Fulfilled\<rparr>]"
    and "heap (loadWithRetry_catch 0 k e w) =
          [l\<lparr>scriptPromise := Some (if less_number k (retryAttempts (options l))
                                       then Pending (AwaitDelay k)
                                       else Rejected (LoadFailed k e))\<rparr>]"
    and "heap (loadWithRetry 0 k w) =
          [l\<lparr>scriptPromise := Some (Pending
                (case querySelector_script (getScriptUrl l) w of
                   NoMatch \<Rightarrow> AwaitScript k
                 | Selected i \<Rightarrow> AwaitResolved k
                 | InvalidSelector \<Rightarrow> AwaitRejected k SelectorSyntaxError))\<rparr>]"
proof -
  have f: "heap w' = fst (view w')" for w' by (simp add: view_def)
  show "heap (loadWithRetry_loaded 0 w) = [l\<lparr>isLoaded := True, scriptPromise := Some Fulfilled\<rparr>]"
    unfolding f loadWithRetry_loaded_view [OF assms] by simp
  show "heap (loadWithRetry_catch 0 k e w) =
          [l\<lparr>scriptPromise := Some (if less_number k (retryAttempts (options l))
                                       then Pending (AwaitDelay k)
                                       else Rejected (LoadFailed k e))\<rparr>]"
    unfolding f loadWithRetry_catch_view [OF assms] by simp
  show "heap (loadWithRetry 0 k w) =
          [l\<lparr>scriptPromise := Some (Pending
                (case querySelector_script (getScriptUrl l) w of
                   NoMatch \<Rightarrow> AwaitScript k
                 | Selected i \<Rightarrow> AwaitResolved k
                 | InvalidSelector \<Rightarrow> AwaitRejected k SelectorSyntaxError))\<rparr>]"
    unfolding f loadWithRetry_view [OF assms] by (simp split: query_result.splits)
qed

lemma remaining_step:
  assumes "binv (view w)" and "retryAttempts (options (heap w ! 0)) = Some (Num q)"
    and "scriptPromise (heap (step ev w) ! 0) \<noteq> scriptPromise (heap w ! 0)"
  shows "remaining \<lceil>q\<rceil> (scriptPromise (heap (step ev w) ! 0))
       < remaining \<lceil>q\<rceil> (scriptPromise (heap w ! 0))"
proof -
  from assms(1) obtain l where h: "heap w = [l]"
    and b: "binv ([l], effects w, document_scripts w, SajkoLoader_instance w)"
    by (rule binv_heap)
  from b have s: "SajkoLoader_instance w = Some 0" by simp
  from assms(2) h have n: "retryAttempts (options l) = Some (Num q)" by simp
  from b have sh: "retry_shape (retryDelay (options l)) (Some (Num q))
      (filter is_retry_effect (effects w)) (scriptPromise l)" by (simp add: n)
  have same: "view w' = view w \<Longrightarrow> heap w' = heap w" for w'
    by (simp add: view_def)
  have ph: "phase_of w 0 = (case scriptPromise l of Some (Pending x) \<Rightarrow> Some x | _ \<Rightarrow> None)"
    using h by (simp add: phase_of_def deref_def)
  show ?thesis
  proof (cases ev)
    case (Init cfg opts)
    with same [OF view_init_joined [OF assms(1)]] assms(3) show ?thesis by simp
  next
    case (LoadCall cfg opts)
    with load_call_joins [OF assms(1)] assms(3) show ?thesis by simp
  next
    case (EngineDefines r)
    with assms(3) show ?thesis by simp
  next
    case (InitResumes i)
    with same [OF view_init_resume] assms(3) show ?thesis by simp
  next
    case (InitGivesUp i)
    with same [OF view_init_give_up] assms(3) show ?thesis by simp
  next
    case ScriptOnload
    with assms(3) s ph show ?thesis
      by (auto simp add: h heap_ops [OF h] split: option.splits promise.splits load_phase.splits)
  next
    case ScriptOnerror
    with assms(3) s ph show ?thesis
      by (auto simp add: h heap_ops [OF h] split: option.splits promise.splits load_phase.splits)
  next
    case ScriptTimeout
    with assms(3) s ph show ?thesis
      by (auto simp add: h heap_ops [OF h] split: option.splits promise.splits load_phase.splits)
  next
    case Continue
    with assms(3) s ph show ?thesis
      by (auto simp add: h heap_ops [OF h] split: option.splits promise.splits load_phase.splits)
  next
    case DelayElapsed
    show ?thesis
    proof (cases "phase_of w 0")
      case None
      with DelayElapsed assms(3) s show ?thesis by simp
    next
      case (Some x)
      show ?thesis
      proof (cases x)
        case (AwaitDelay k)
        with Some ph have p: "scriptPromise l = Some (Pending (AwaitDelay k))"
          by (simp split: option.splits promise.splits)
        with sh have "less_number k (Some (Num q))" by simp
        then have k: "int k < \<lceil>q\<rceil>" by (rule less_number_ceiling)
        from DelayElapsed s Some AwaitDelay have
          st: "step ev w = loadWithRetry 0 (k + 1) w" by simp
        show ?thesis
          unfolding st using k p
          by (cases "querySelector_script (getScriptUrl l) w")
             (simp_all add: h heap_ops [OF h])
      qed (use DelayElapsed assms(3) s Some in simp_all)
    qed
  qed
qed

lemma reached:
  assumes "fresh_page w0" and "SajkoLoader_instance (run evs w0) = Some a"
  shows "a = 0 \<and> binv (view (run evs w0))
    \<and> (loaderInstance (run evs w0) = None \<or> loaderInstance (run evs w0) = Some 0)"
proof -
  from assms(1) have "loader_inv w0" by (simp add: loader_inv_def)
  then have "loader_inv (run evs w0)" by (rule loader_inv_run)
  with assms(2) show ?thesis
    by (auto simp add: loader_inv_view fresh_page_def view_def)
qed

text \<open>With \<open>retryAttempts\<close> infinite, a failed attempt is never the last.\<close>

lemma infinite_retry:
  assumes "heap w = [l]" and "retryAttempts (options l) = Some PosInfinity"
  shows "scriptPromise (heap (loadWithRetry_catch 0 k e w) ! 0) = Some (Pending (AwaitDelay k))"
  using assms(2) by (simp add: heap_ops(2) [OF assms(1)])

lemma remaining_bound:
  assumes "1 \<le> m" and "retry_shape d n es (Some p)"
  shows "remaining m (Some p) \<le> 2 * nat m + 1"
proof (cases p)
  case (Pending x)
  show ?thesis
  proof (cases x)
    case (AwaitScript k)
    with Pending assms(2) have "1 \<le> k" by (simp add: attempt_reached_def)
    with assms(1) Pending AwaitScript show ?thesis by simp
  next
    case (AwaitResolved k)
    with Pending show ?thesis by simp
  next
    case (AwaitRejected k e)
    with Pending assms(2) have "1 \<le> k" by (simp add: attempt_reached_def)
    with assms(1) Pending AwaitRejected show ?thesis by simp
  next
    case (AwaitDelay k)
    with Pending assms(2) have "1 \<le> k" by simp
    with assms(1) Pending AwaitDelay show ?thesis by simp
  qed
qed simp_all

text \<open>
  C3, as amended. For a loader with a finite \<open>retryAttempts = q\<close>, \<open>q \<ge> 1\<close>, on a page
  that started without the wrapper: at most \<open>\<lceil>q\<rceil>\<close> calls of \<open>loadScript\<close> are made (\<open>q\<close>
  of them when \<open>q\<close> is a whole number), and no more script elements are appended than
  calls were made; the calls of \<open>loadScript\<close> and of \<open>delay\<close> alternate, each delay being
  \<open>retryDelay\<close>; when an attempt \<open>k\<close> that is not below \<open>q\<close> fails (the element's error,
  the timeout, or a lookup that threw) the promise is rejected; once rejected it stays
  rejected, and no further attempt or fetch is made, whatever follows; every change of
  the promise's state lowers a bound that starts at \<open>2\<lceil>q\<rceil> + 1\<close> at most, and a pending
  promise always has an event that changes it, so the load settles.
\<close>

theorem loadWithRetry_bounded:
  assumes "fresh_page w0" and "w = run evs w0" and "SajkoLoader_instance w = Some a"
    and "retryAttempts (options (heap w ! a)) = Some (Num q)" and "1 \<le> q"
  shows "int (attempts w) \<le> \<lceil>q\<rceil>
     \<and> fetches w \<le> attempts w
     \<and> (retry_effects w = retry_trace (retryDelay (options (heap w ! a))) (attempts w)
         \<or> retry_effects w =
              retry_trace (retryDelay (options (heap w ! a))) (attempts w)
                @ [Delay (retryDelay (options (heap w ! a)))])
     \<and> (\<forall>k. scriptPromise (heap w ! a) = Some (Pending (AwaitScript k)) \<and> q \<le> of_nat k \<longrightarrow>
           scriptPromise (heap (step ScriptOnerror w) ! a)
             = Some (Rejected (LoadFailed k ScriptLoadError))
           \<and> scriptPromise (heap (step ScriptTimeout w) ! a)
             = Some (Rejected (LoadFailed k (ScriptLoadTimeout (timeout (options (heap w ! a)))))))
     \<and> (\<forall>k e. scriptPromise (heap w ! a) = Some (Pending (AwaitRejected k e)) \<and> q \<le> of_nat k
           \<longrightarrow> scriptPromise (heap (step Continue w) ! a) = Some (Rejected (LoadFailed k e)))
     \<and> (\<forall>e evs'. scriptPromise (heap w ! a) = Some (Rejected e) \<longrightarrow>
           scriptPromise (heap (run evs' w) ! a) = Some (Rejected e)
           \<and> attempts (run evs' w) = attempts w
           \<and> fetches (run evs' w) = fetches w)
     \<and> (\<forall>ev. scriptPromise (heap (step ev w) ! a) \<noteq> scriptPromise (heap w ! a) \<longrightarrow>
           remaining \<lceil>q\<rceil> (scriptPromise (heap (step ev w) ! a))
             < remaining \<lceil>q\<rceil> (scriptPromise (heap w ! a)))
     \<and> remaining \<lceil>q\<rceil> (scriptPromise (heap w ! a)) \<le> 2 * nat \<lceil>q\<rceil> + 1
     \<and> (\<forall>ph. scriptPromise (heap w ! a) = Some (Pending ph) \<longrightarrow>
           (\<exists>ev. scriptPromise (heap (step ev w) ! a) \<noteq> scriptPromise (heap w ! a)))"
proof -
  from reached [OF assms(1)] assms(3) have a: "a = 0" and b: "binv (view w)"
    unfolding assms(2) by blast+
  from assms(4) a have n: "retryAttempts (options (heap w ! 0)) = Some (Num q)" by simp
  from b obtain l where h: "heap w = [l]"
    and bl: "binv ([l], effects w, document_scripts w, SajkoLoader_instance w)"
    by (rule binv_heap)
  from bl have s: "SajkoLoader_instance w = Some 0" by simp
  from n h have nl: "retryAttempts (options l) = Some (Num q)" by simp
  from bl have sh: "retry_shape (retryDelay (options l)) (Some (Num q))
      (filter is_retry_effect (effects w)) (scriptPromise l)"
    and pn: "scriptPromise l \<noteq> None"
    by (simp_all add: nl)
  have ph: "phase_of w 0 = (case scriptPromise l of Some (Pending x) \<Rightarrow> Some x | _ \<Rightarrow> None)"
    using h by (simp add: phase_of_def deref_def)
  from binv_attempts [OF b] n
  have ar: "attempt_reached (attempts w) (Some (Num q))" and fa: "fetches w \<le> attempts w"
    by simp_all
  have 1: "int (attempts w) \<le> \<lceil>q\<rceil>"
    using ar assms(5) by (rule attempt_reached_ceiling)
  have 2: "retry_effects w = retry_trace (retryDelay (options (heap w ! a))) (attempts w)
         \<or> retry_effects w =
              retry_trace (retryDelay (options (heap w ! a))) (attempts w)
                @ [Delay (retryDelay (options (heap w ! a)))]"
    using binv_attempts [OF b] a by simp
  have 3: "scriptPromise (heap (step ScriptOnerror w) ! a)
             = Some (Rejected (LoadFailed k ScriptLoadError))
           \<and> scriptPromise (heap (step ScriptTimeout w) ! a)
             = Some (Rejected (LoadFailed k (ScriptLoadTimeout (timeout (options (heap w ! a))))))"
    if "scriptPromise (heap w ! a) = Some (Pending (AwaitScript k))" and "q \<le> of_nat k" for k
    using that a s ph nl by (simp add: h heap_ops [OF h] deref_def)
  have c3: "scriptPromise (heap (step Continue w) ! a) = Some (Rejected (LoadFailed k e))"
    if "scriptPromise (heap w ! a) = Some (Pending (AwaitRejected k e))" and "q \<le> of_nat k"
    for k e
    using that a s ph nl by (simp add: h heap_ops [OF h] deref_def)
  have 4: "scriptPromise (heap (run evs' w) ! a) = Some (Rejected e)
           \<and> attempts (run evs' w) = attempts w
           \<and> fetches (run evs' w) = fetches w"
    if "scriptPromise (heap w ! a) = Some (Rejected e)" for e evs'
  proof -
    from that a have r: "scriptPromise (heap w ! 0) = Some (Rejected e)" by simp
    from rejected_run [OF b r, of evs'] have "heap (run evs' w) = heap w"
      and "effects (run evs' w) = effects w"
      by (simp_all add: view_def)
    with that show ?thesis by (simp add: attempts_def fetches_def)
  qed
  have 5: "remaining \<lceil>q\<rceil> (scriptPromise (heap (step ev w) ! a))
             < remaining \<lceil>q\<rceil> (scriptPromise (heap w ! a))"
    if "scriptPromise (heap (step ev w) ! a) \<noteq> scriptPromise (heap w ! a)" for ev
    using remaining_step [OF b n, of ev] that a by simp
  have 6: "remaining \<lceil>q\<rceil> (scriptPromise (heap w ! a)) \<le> 2 * nat \<lceil>q\<rceil> + 1"
  proof -
    from assms(5) have c: "1 \<le> \<lceil>q\<rceil>" by (simp add: le_ceiling_iff)
    from pn obtain p where p: "scriptPromise l = Some p" by auto
    from remaining_bound [OF c] sh p have
      "remaining \<lceil>q\<rceil> (scriptPromise l) \<le> 2 * nat \<lceil>q\<rceil> + 1" by simp
    with a h show ?thesis by simp
  qed
  have 7: "\<exists>ev. scriptPromise (heap (step ev w) ! a) \<noteq> scriptPromise (heap w ! a)"
    if "scriptPromise (heap w ! a) = Some (Pending x)" for x
  proof (cases x)
    case (AwaitScript k)
    with that a s ph h have
      "scriptPromise (heap (step ScriptOnload w) ! a) \<noteq> scriptPromise (heap w ! a)"
      by (simp add: heap_ops [OF h])
    then show ?thesis by blast
  next
    case (AwaitResolved k)
    with that a s ph h have
      "scriptPromise (heap (step Continue w) ! a) \<noteq> scriptPromise (heap w ! a)"
      by (simp add: heap_ops [OF h])
    then show ?thesis by blast
  next
    case (AwaitRejected k e)
    with that a s ph h have
      "scriptPromise (heap (step Continue w) ! a) \<noteq> scriptPromise (heap w ! a)"
      by (simp add: heap_ops [OF h])
    then show ?thesis by blast
  next
    case (AwaitDelay k)
    with that a s ph h have
      "scriptPromise (heap (step DelayElapsed w) ! a) \<noteq> scriptPromise (heap w ! a)"
      by (simp add: heap_ops [OF h] split: query_result.splits)
    then show ?thesis by blast
  qed
  from 1 fa 2 3 c3 4 5 6 7 show ?thesis by blast
qed

theorem loadWithRetry_bounded_witness:
  "fresh_page empty_page
   \<and> SajkoLoader_instance
        (run [Init example_config (Some backslash_options), ScriptOnerror, DelayElapsed,
              ScriptTimeout, DelayElapsed] empty_page) = Some 0
   \<and> retryAttempts (options (heap
        (run [Init example_config (Some backslash_options), ScriptOnerror, DelayElapsed,
              ScriptTimeout, DelayElapsed] empty_page) ! 0)) = Some (Num 3)
   \<and> (1 :: rat) \<le> 3
   \<and> attempts (run [Init example_config (Some backslash_options), ScriptOnerror, DelayElapsed,
                     ScriptTimeout, DelayElapsed] empty_page) = 3
   \<and> fetches (run [Init example_config (Some backslash_options), ScriptOnerror, DelayElapsed,
                    ScriptTimeout, DelayElapsed] empty_page) = 3
   \<and> retry_effects (run [Init example_config (Some backslash_options), ScriptOnerror,
                          DelayElapsed, ScriptTimeout, DelayElapsed] empty_page)
       = [LoadScript 1, Delay (Some 1000), LoadScript 2, Delay (Some 1000), LoadScript 3]
   \<and> scriptPromise (heap
        (run [Init example_config (Some backslash_options), ScriptOnerror, DelayElapsed,
              ScriptTimeout, DelayElapsed] empty_page) ! 0) = Some (Pending (AwaitScript 3))
   \<and> scriptPromise (heap (step ScriptOnerror
        (run [Init example_config (Some backslash_options), ScriptOnerror, DelayElapsed,
              ScriptTimeout, DelayElapsed] empty_page)) ! 0)
       = Some (Rejected (LoadFailed 3 ScriptLoadError))
   \<and> scriptPromise (heap (run [DelayElapsed, Init example_config None, ScriptOnload, Continue]
        (run [Init example_config (Some backslash_options), ScriptOnerror, DelayElapsed,
              ScriptTimeout, DelayElapsed, ScriptOnerror] empty_page)) ! 0)
       = Some (Rejected (LoadFailed 3 ScriptLoadError))
   \<and> attempts (run [DelayElapsed, Init example_config None, ScriptOnload, Continue]
        (run [Init example_config (Some backslash_options), ScriptOnerror, DelayElapsed,
              ScriptTimeout, DelayElapsed, ScriptOnerror] empty_page)) = 3"
proof -
  let ?w5 = "run [Init example_config (Some backslash_options), ScriptOnerror, DelayElapsed,
                  ScriptTimeout, DelayElapsed] empty_page"
  let ?w6 = "run [Init example_config (Some backslash_options), ScriptOnerror, DelayElapsed,
                  ScriptTimeout, DelayElapsed, ScriptOnerror] empty_page"
  let ?evs = "[DelayElapsed, Init example_config None, ScriptOnload, Continue]"
  have f: "fresh_page empty_page" by (simp add: fresh_page_def empty_page_def)
  have a: "SajkoLoader_instance ?w5 = Some 0" by code_simp
  have b: "retryAttempts (options (heap ?w5 ! 0)) = Some (Num 3)" by code_simp
  have c: "(1 :: rat) \<le> 3" by simp
  have n: "attempts ?w5 = 3" by code_simp
  have m: "fetches ?w5 = 3" by code_simp
  have t: "retry_effects ?w5
      = [LoadScript 1, Delay (Some 1000), LoadScript 2, Delay (Some 1000), LoadScript 3]"
    by code_simp
  have p: "scriptPromise (heap ?w5 ! 0) = Some (Pending (AwaitScript 3))" by code_simp
  have a6: "SajkoLoader_instance ?w6 = Some 0" by code_simp
  have b6: "retryAttempts (options (heap ?w6 ! 0)) = Some (Num 3)" by code_simp
  have p6: "scriptPromise (heap ?w6 ! 0) = Some (Rejected (LoadFailed 3 ScriptLoadError))"
    by code_simp
  have n6: "attempts ?w6 = 3" by code_simp
  from loadWithRetry_bounded [OF f refl a b c] p
  have r: "scriptPromise (heap (step ScriptOnerror ?w5) ! 0)
      = Some (Rejected (LoadFailed 3 ScriptLoadError))"
    by simp
  from loadWithRetry_bounded [OF f refl a6 b6 c] p6
  have "scriptPromise (heap (run ?evs ?w6) ! 0) = Some (Rejected (LoadFailed 3 ScriptLoadError))
      \<and> attempts (run ?evs ?w6) = attempts ?w6"
    by blast
  with n6 have s: "scriptPromise (heap (run ?evs ?w6) ! 0)
        = Some (Rejected (LoadFailed 3 ScriptLoadError))"
    and u: "attempts (run ?evs ?w6) = 3"
    by simp_all
  from f a b c n m t p r s u show ?thesis by simp
qed

text \<open>
  As the claim was stated, \<open>retryAttempts = n\<close> would allow \<open>n\<close> attempts at most, for every
  number \<open>n \<ge> 1\<close>. With \<open>retryAttempts: 1.5\<close>, after the first attempt failed the second
  one is made (\<open>1 < 1.5\<close>): two attempts.
\<close>

theorem loadWithRetry_fraction_counterexample:
  "(1 :: rat) \<le> 3 / 2
   \<and> retryAttempts (options (heap
        (run [Init example_config (Some (no_options\<lparr>retryAttempts := Some (Num (3 / 2))\<rparr>)),
              ScriptOnerror, DelayElapsed] empty_page) ! 0)) = Some (Num (3 / 2))
   \<and> attempts
        (run [Init example_config (Some (no_options\<lparr>retryAttempts := Some (Num (3 / 2))\<rparr>)),
              ScriptOnerror, DelayElapsed] empty_page) = 2
   \<and> \<not> (2 :: rat) \<le> 3 / 2"
  by code_simp

text \<open>
  The platform's lookup is the same throughout, and where it finds the script with the
  loader's URL, at most one script element is appended, whatever calls of \<open>init\<close> and
  of \<open>load()\<close> and whatever events follow one another.
\<close>

lemma lookup_step: "document_querySelector (step ev w) = document_querySelector w"
proof -
  have l: "document_querySelector (loadWithRetry a k w') = document_querySelector w'"
    "document_querySelector (loadWithRetry_loaded a w') = document_querySelector w'"
    "document_querySelector (loadWithRetry_catch a k e w') = document_querySelector w'"
    for a k e w'
    by (simp_all add: loadWithRetry_def loadScript_def loadWithRetry_loaded_def
        loadWithRetry_catch_def Let_def emit_def set_promise_def assign_def
        split: query_result.splits)
  show ?thesis
  proof (cases ev)
    case (Init cfg opts)
    then show ?thesis
      by (simp add: init_def getInstance_def load_def Let_def l
          split: option.splits prod.splits load_result.splits)
  next
    case (LoadCall cfg opts)
    then show ?thesis
      by (simp add: getInstance_def load_def Let_def l split: option.splits prod.splits)
  next
    case (EngineDefines r)
    then show ?thesis by simp
  next
    case (InitResumes i)
    then show ?thesis
      by (simp add: init_resume_def drop_task_def
          split: init_task.splits option.splits promise.splits)
  next
    case (InitGivesUp i)
    then show ?thesis
      by (simp add: init_give_up_def drop_task_def
          split: init_task.splits option.splits promise.splits)
  qed (simp_all add: l split: option.splits load_phase.splits)
qed

lemma lookup_run: "document_querySelector (run evs w) = document_querySelector w"
  unfolding run_def by (induction evs arbitrary: w) (simp_all add: lookup_step)

lemma finv_heap:
  assumes "heap w = [l]"
  shows "finv select (view w) = finv select ([l], effects w, document_scripts w, SajkoLoader_instance w)"
  using assms by (simp add: view_def)

lemma finv_load:
  assumes "heap w = [l]" and "finv (document_querySelector w) (view w)"
  shows "finv (document_querySelector w) (view (loadWithRetry 0 k w))"
proof (cases "lookup_finds (document_querySelector w) (getScriptUrl l)")
  case False
  then show ?thesis
    unfolding loadWithRetry_view [OF assms(1)] by (simp split: query_result.splits)
next
  case True
  with assms have f: "length (filter is_fetch (effects w)) \<le> 1"
    and d: "filter is_fetch (effects w) \<noteq> [] \<longrightarrow>
         (\<exists>t \<in> set (document_scripts w). src t = getScriptUrl l)"
    by (simp_all add: view_def)
  show ?thesis
  proof (cases "querySelector_script (getScriptUrl l) w")
    case NoMatch
    have "filter is_fetch (effects w) = []"
    proof (rule ccontr)
      assume "filter is_fetch (effects w) \<noteq> []"
      with d have "\<exists>t \<in> set (document_scripts w). src t = getScriptUrl l" by simp
      with True obtain i where
        "document_querySelector w (getScriptUrl l) (document_scripts w) = Selected i"
        unfolding lookup_finds_def by blast
      with NoMatch show False by (simp add: querySelector_script_def)
    qed
    then show ?thesis
      unfolding loadWithRetry_view [OF assms(1)] using NoMatch by simp
  next
    case (Selected i)
    then show ?thesis
      unfolding loadWithRetry_view [OF assms(1)] using f d by simp
  next
    case InvalidSelector
    then show ?thesis
      unfolding loadWithRetry_view [OF assms(1)] using f d by simp
  qed
qed

lemma finv_loaded:
  assumes "heap w = [l]" and "finv select (view w)"
  shows "finv select (view (loadWithRetry_loaded 0 w))"
  unfolding loadWithRetry_loaded_view [OF assms(1)]
  using assms by (simp add: view_def)

lemma finv_catch:
  assumes "heap w = [l]" and "finv select (view w)"
  shows "finv select (view (loadWithRetry_catch 0 k e w))"
  unfolding loadWithRetry_catch_view [OF assms(1)]
  using assms by (simp add: view_def)

lemma finv_step:
  assumes "fresh_page w \<or> (binv (view w) \<and> finv (document_querySelector w) (view w))"
  shows "fresh_page (step ev w) \<or> finv (document_querySelector (step ev w)) (view (step ev w))"
proof (cases "fresh_page w")
  case True
  then have f: "heap w = []" "SajkoLoader_instance w = None" "effects w = []"
    by (simp_all add: fresh_page_def)
  have first: "finv (document_querySelector w') (view (loadWithRetry 0 1 w'))"
    if "heap w' = [l]" and "effects w' = []" for w' l
    using that(1) by (rule finv_load) (simp add: view_def that)
  show ?thesis
  proof (cases ev)
    case (Init cfg opts)
    show ?thesis
    proof (cases "truthy_str (websiteId cfg)")
      case t: True
      let ?l = "new_SajkoLoader cfg (case opts of None \<Rightarrow> no_options | Some x \<Rightarrow> x)"
      let ?w1 = "w\<lparr>heap := [?l], SajkoLoader_instance := Some 0, loaderInstance := Some 0\<rparr>"
      have "finv (document_querySelector ?w1) (view (loadWithRetry 0 1 ?w1))"
        by (rule first [of _ ?l]) (simp_all add: f)
      then show ?thesis
        unfolding lookup_step using Init by (simp add: init_fresh [OF True t] Let_def)
    next
      case f: False
      from fresh_init_bad [OF True f] Init True show ?thesis by simp
    qed
  next
    case (LoadCall cfg opts)
    let ?l = "new_SajkoLoader cfg (case opts of None \<Rightarrow> no_options | Some x \<Rightarrow> x)"
    let ?w1 = "w\<lparr>heap := heap w @ [?l], SajkoLoader_instance := Some (length (heap w))\<rparr>"
    have v: "step (LoadCall cfg opts) w = loadWithRetry 0 1 ?w1"
      using f by (simp add: getInstance_def load_def deref_def Let_def new_loader_fields)
    have "finv (document_querySelector ?w1) (view (loadWithRetry 0 1 ?w1))"
      by (rule first [of _ ?l]) (simp_all add: f)
    then show ?thesis
      unfolding lookup_step using LoadCall v by simp
  next
    case (EngineDefines r)
    with True show ?thesis by (simp add: fresh_page_def)
  next
    case (InitResumes i)
    with True show ?thesis by (simp add: fresh_init_resume)
  next
    case (InitGivesUp i)
    with True show ?thesis by (simp add: fresh_init_give_up)
  qed (use f True in simp_all)
next
  case False
  with assms have b: "binv (view w)" and fi: "finv (document_querySelector w) (view w)"
    by simp_all
  from b obtain l where h: "heap w = [l]" by (rule binv_heap)
  from b have s: "SajkoLoader_instance w = Some 0" by (simp add: view_def)
  have keep: "view w' = view w \<Longrightarrow> finv (document_querySelector w) (view w')" for w'
    using fi by simp
  have "finv (document_querySelector w) (view (step ev w))"
  proof (cases ev)
    case (Init cfg opts)
    with view_init_joined [OF b] keep show ?thesis by simp
  next
    case (LoadCall cfg opts)
    with load_call_joins [OF b] fi show ?thesis by simp
  next
    case (EngineDefines r)
    with keep show ?thesis by simp
  next
    case (InitResumes i)
    with keep view_init_resume show ?thesis by simp
  next
    case (InitGivesUp i)
    with keep view_init_give_up show ?thesis by simp
  qed (use s fi finv_load [OF h fi] finv_loaded [OF h fi] finv_catch [OF h fi]
        in \<open>simp_all split: option.splits load_phase.splits\<close>)
  then show ?thesis by (simp add: lookup_step)
qed

lemma fetches_once:
  assumes "fresh_page w0" and "w = run evs w0" and "SajkoLoader_instance w = Some a"
    and "lookup_finds (document_querySelector w) (getScriptUrl (heap w ! a))"
  shows "fetches w \<le> 1"
proof -
  have inv: "fresh_page (run evs w0)
      \<or> (binv (view (run evs w0)) \<and> finv (document_querySelector (run evs w0)) (view (run evs w0)))"
    using assms(1)
  proof (induction evs rule: rev_induct)
    case Nil
    then show ?case by (simp add: run_def)
  next
    case (snoc ev evs)
    from snoc have i: "fresh_page (run evs w0)
      \<or> (binv (view (run evs w0)) \<and> finv (document_querySelector (run evs w0)) (view (run evs w0)))"
      by simp
    have r: "run (evs @ [ev]) w0 = step ev (run evs w0)" by (simp add: run_def)
    from i have c: "fresh_page (run evs w0) \<or> binv (view (run evs w0))" by blast
    from core_inv_step [OF c, of ev] finv_step [OF i, of ev] show ?case
      unfolding r by blast
  qed
  from reached [OF assms(1)] assms(3) have a: "a = 0"
    unfolding assms(2) by blast
  from assms(3) have "\<not> fresh_page w" by (simp add: fresh_page_def)
  with inv have "finv (document_querySelector w) (view w)" unfolding assms(2) by blast
  with assms(4) a show ?thesis by (simp add: view_def fetches_def)
qed


end
